theory Spec2Isabelle
  imports Main "HOL-Library.Log_Nat"
begin

section \<open>The sampling planner: \<open>math.ceil(total_docs * (percentage / 100.0))\<close>\<close>

text \<open>
  Line 114 of \<open>db_migrator.py\<close> computes the number of documents to migrate in
  binary64 floating point: \<open>percentage / 100.0\<close> is a correctly rounded division of two
  doubles, the product with \<open>total_docs\<close> (converted to a double) is correctly rounded
  again, and \<open>math.ceil\<close> returns the exact integer ceiling of that double.

  A finite double is a rational number, so the arithmetic is modelled on \<open>rat\<close> with the
  rounding written out: \<open>to_double\<close> rounds a rational to the nearest number with a 53-bit
  significand, ties to even, for either sign. Only the normal range is modelled (no overflow, no subnormal
  numbers): document counts are 64-bit integers and the percentage is between 1 and 100,
  so every intermediate value lies between \<open>1/128\<close> and \<open>2^64\<close>.
\<close>

definition pow2 :: "int \<Rightarrow> rat" where
  "pow2 e = (if 0 \<le> e then 2 ^ nat e else 1 / 2 ^ nat (- e))"

definition round_half_even :: "rat \<Rightarrow> int" where
  "round_half_even x =
     (let f = \<lfloor>x\<rfloor>; d = x - of_int f
      in if d < 1 / 2 then f
         else if 1 / 2 < d then f + 1
         else if even f then f else f + 1)"

text \<open>\<open>ilog2 x\<close> is the binary exponent of a positive rational: \<open>2^k \<le> x < 2^(k+1)\<close>.\<close>

definition ilog2 :: "rat \<Rightarrow> int" where
  "ilog2 x =
     (let (a, b) = quotient_of x;
          k = bitlen a - bitlen b
      in if pow2 k \<le> x then k else k - 1)"

definition to_double :: "rat \<Rightarrow> rat" where
  "to_double x =
     (if x = 0 then 0
      else let e = ilog2 \<bar>x\<bar> - 52
           in of_int (round_half_even (x / pow2 e)) * pow2 e)"

definition num_to_migrate :: "nat \<Rightarrow> int \<Rightarrow> int" where
  "num_to_migrate total_docs percentage =
     \<lceil>to_double (to_double (of_nat total_docs)
                 * to_double (to_double (of_int percentage) / 100))\<rceil>"

text \<open>The planned count the specification asks for: the exact ceiling.\<close>

definition exact_ceiling :: "nat \<Rightarrow> int \<Rightarrow> int" where
  "exact_ceiling total_docs percentage = \<lceil>(of_nat total_docs * of_int percentage / 100 :: rat)\<rceil>"

section \<open>Documents, driver outcomes and the two databases\<close>

text \<open>
  The engine of \<open>db_migrator.py\<close> is a client of two MongoDB connections. The driver and
  the databases are its environment: what each driver call returns or raises is given by
  a record \<open>env\<close> that the engine cannot change, and everything that changes during a
  run (the cancellation flag, the target database, the handles, the log, the progress
  counters) is a record \<open>state\<close> that every function takes and returns.
\<close>

datatype doc = Doc (doc_id: nat) (body: string)

text \<open>A driver call succeeds, raises a \<open>PyMongoError\<close>, or raises another exception.\<close>

datatype fault = NoFault | MongoFault | OtherFault

text \<open>\<open>next(cursor)\<close> yields a document or raises; an exhausted cursor raises StopIteration.\<close>

datatype fetch = Yield doc | FetchFault

datatype handle = NoClient | Live | Released | CloseFailed

datatype client = Source | Target

datatype level = Info | Warning | Error

datatype exn = TypeError | Unexpected

datatype write_result = WriteOk | BulkWriteError "nat list" | PyMongoError | OtherError

record src_coll =
  access_fails :: bool
  est_count :: "nat option"
  find_fails :: bool
  fetches :: "fetch list"
  cursor_close_fails :: bool

record env =
  sigint_at :: "nat option"
  src_connect :: fault
  tgt_connect :: fault
  src_ping :: fault
  tgt_ping :: fault
  db_access_fails :: bool
  list_fails :: bool
  source_colls :: "(string \<times> src_coll) list"
  tgt_list_fails :: bool
  tgt_create_fails :: bool
  validate :: "string \<Rightarrow> doc \<Rightarrow> nat option"
  src_close_fails :: bool
  tgt_close_fails :: bool

text \<open>
  \<open>stop\<close> is the module's global \<open>_stop\<close>. \<open>clock\<close> counts the driver calls made so far;
  the interrupt of \<open>sigint_at\<close> is delivered during the call with that number.
  \<open>write_faults\<close> and \<open>update_faults\<close> are consumed one per \<open>insert_many\<close> and one per
  \<open>progress.update\<close>. The fields from \<open>conn_attempts\<close> on record what the run did:
  \<open>writes\<close> holds every \<open>insert_many\<close> issued (collection, batch, and whether the flag
  was already set when it was issued), \<open>started\<close> every collection whose processing
  began (with the flag at that moment), \<open>completed\<close> the counts of the final log line of a
  collection, \<open>tasks\<close> the per-collection progress bars, most recent first.
\<close>

record state =
  clock :: nat
  stop :: bool
  target :: "(string \<times> doc list) list"
  write_faults :: "fault list"
  update_faults :: "bool list"
  src_client :: handle
  tgt_client :: handle
  conn_attempts :: nat
  logs :: "(level \<times> string) list"
  overall :: nat
  overall_total :: nat
  tasks :: "(string \<times> int \<times> nat) list"
  fetched :: "doc list"
  writes :: "(string \<times> doc list \<times> bool) list"
  started :: "(string \<times> bool) list"
  completed :: "(string \<times> int \<times> nat) list"
  cursors_opened :: nat
  cursors_closed :: nat

section \<open>Logging, progress and the interrupt handler\<close>

definition logger_log :: "level \<Rightarrow> string \<Rightarrow> state \<Rightarrow> state" where
  "logger_log lv msg s = s\<lparr>logs := logs s @ [(lv, msg)]\<rparr>"

definition logger_info :: "string \<Rightarrow> state \<Rightarrow> state" where
  "logger_info = logger_log Info"

definition logger_warning :: "string \<Rightarrow> state \<Rightarrow> state" where
  "logger_warning = logger_log Warning"

definition logger_error :: "string \<Rightarrow> state \<Rightarrow> state" where
  "logger_error = logger_log Error"

definition log_to_file :: "level \<Rightarrow> string \<Rightarrow> state \<Rightarrow> state" where
  "log_to_file = logger_log"

definition handle_sigint :: "state \<Rightarrow> state" where
  "handle_sigint s =
     logger_error ''Migration interrupted by user. Closing connections...'' (s\<lparr>stop := True\<rparr>)"

text \<open>Every driver call passes through \<open>tick\<close>: the interrupt may arrive during it.\<close>

definition tick :: "env \<Rightarrow> state \<Rightarrow> state" where
  "tick E s =
     (let s' = s\<lparr>clock := Suc (clock s)\<rparr>
      in if sigint_at E = Some (clock s) then handle_sigint s' else s')"

definition advance_overall :: "state \<Rightarrow> state" where
  "advance_overall s = s\<lparr>overall := Suc (overall s)\<rparr>"

definition add_task :: "string \<Rightarrow> int \<Rightarrow> state \<Rightarrow> state" where
  "add_task c planned s = s\<lparr>tasks := (c, planned, 0) # tasks s\<rparr>"

definition advance_task :: "nat \<Rightarrow> state \<Rightarrow> state" where
  "advance_task k s =
     (case tasks s of
        [] \<Rightarrow> s
      | (c, planned, advanced) # ts \<Rightarrow> s\<lparr>tasks := (c, planned, advanced + k) # ts\<rparr>)"

text \<open>
  \<open>progress.update(task, advance=len(docs))\<close>, which is outside every inner handler of
  the batch loop: if the display raises, the handler of line 166 takes over.
\<close>

definition progress_update :: "nat \<Rightarrow> state \<Rightarrow> exn option \<times> state" where
  "progress_update k s =
     (case update_faults s of
        [] \<Rightarrow> (None, advance_task k s)
      | f # fs \<Rightarrow>
          if f then (Some Unexpected, s\<lparr>update_faults := fs\<rparr>)
          else (None, advance_task k (s\<lparr>update_faults := fs\<rparr>)))"

section \<open>The target database: unordered bulk insert\<close>

fun put_coll :: "string \<Rightarrow> doc list \<Rightarrow> (string \<times> doc list) list \<Rightarrow> (string \<times> doc list) list" where
  "put_coll c ds [] = [(c, ds)]"
| "put_coll c ds ((k, v) # al) = (if k = c then (k, ds) # al else (k, v) # put_coll c ds al)"

definition get_coll :: "string \<Rightarrow> (string \<times> doc list) list \<Rightarrow> doc list" where
  "get_coll c al = (case map_of al c of None \<Rightarrow> [] | Some ds \<Rightarrow> ds)"

text \<open>
  An unordered insert tries every document of the batch: a document whose \<open>_id\<close> is
  already in the collection is rejected with code 11000, one that the collection's
  validator rejects gets the validator's code, every other document is stored. The
  result is the new content and the codes of the write errors.
\<close>

fun insert_unordered :: "(doc \<Rightarrow> nat option) \<Rightarrow> doc list \<Rightarrow> doc list \<Rightarrow> doc list \<times> nat list" where
  "insert_unordered v coll [] = (coll, [])"
| "insert_unordered v coll (d # ds) =
     (if doc_id d \<in> set (map doc_id coll)
      then (let (coll', errs) = insert_unordered v coll ds in (coll', 11000 # errs))
      else case v d of
             Some code \<Rightarrow> (let (coll', errs) = insert_unordered v coll ds in (coll', code # errs))
           | None \<Rightarrow> insert_unordered v (coll @ [d]) ds)"

definition store :: "env \<Rightarrow> string \<Rightarrow> doc list \<Rightarrow> state \<Rightarrow> write_result \<times> state" where
  "store E c docs s =
     (let (new, errs) = insert_unordered (validate E c) (get_coll c (target s)) docs;
          s' = s\<lparr>target := put_coll c new (target s)\<rparr>
      in (if errs = [] then WriteOk else BulkWriteError errs, s'))"

text \<open>
  \<open>target_coll.insert_many(docs, ordered=False)\<close>. A fault of the call itself (network,
  authorisation) raises before anything is stored.
\<close>

definition insert_many :: "env \<Rightarrow> string \<Rightarrow> doc list \<Rightarrow> state \<Rightarrow> write_result \<times> state" where
  "insert_many E c docs s =
     (let s1 = tick E (s\<lparr>writes := writes s @ [(c, docs, stop s)]\<rparr>)
      in case write_faults s1 of
           [] \<Rightarrow> store E c docs s1
         | f # fs \<Rightarrow>
             (case f of
                NoFault \<Rightarrow> store E c docs (s1\<lparr>write_faults := fs\<rparr>)
              | MongoFault \<Rightarrow> (PyMongoError, s1\<lparr>write_faults := fs\<rparr>)
              | OtherFault \<Rightarrow> (OtherError, s1\<lparr>write_faults := fs\<rparr>)))"

section \<open>The batch copier (lines 127 to 165 of \<open>_migrate\<close>)\<close>

text \<open>
  The inner \<open>for _ in range(batch_size)\<close>. \<open>migrated_count\<close> does not change inside it,
  so its test \<open>migrated_count >= num_to_migrate\<close> is the one the \<open>while\<close> has just made.
  StopIteration is passed over and the loop goes on to the next index; any other
  exception of \<open>next(cursor)\<close> is logged and breaks the loop.
\<close>

fun fetch_batch ::
  "env \<Rightarrow> string \<Rightarrow> nat \<Rightarrow> int \<Rightarrow> int \<Rightarrow> fetch list \<Rightarrow> doc list \<Rightarrow> state
     \<Rightarrow> doc list \<times> fetch list \<times> state" where
  "fetch_batch E c 0 migrated_count n cursor docs s = (docs, cursor, s)"
| "fetch_batch E c (Suc k) migrated_count n cursor docs s =
     (if migrated_count \<ge> n then (docs, cursor, s)
      else case cursor of
             [] \<Rightarrow> fetch_batch E c k migrated_count n [] docs (tick E s)
           | Yield d # rest \<Rightarrow>
               fetch_batch E c k migrated_count n rest (docs @ [d])
                 ((tick E s)\<lparr>fetched := fetched (tick E s) @ [d]\<rparr>)
           | FetchFault # rest \<Rightarrow>
               (docs, rest, logger_error (''Error fetching document from '' @ c) (tick E s)))"

definition log_write_errors :: "string \<Rightarrow> nat list \<Rightarrow> state \<Rightarrow> state" where
  "log_write_errors c errs s =
     foldl (\<lambda>s code. if code = 11000 then logger_warning (''Duplicate _id in '' @ c) s
                      else logger_error (''Write error in '' @ c) s) s errs"

text \<open>Lines 148 to 162: the write and its handlers. The flag returned is False on \<open>break\<close>.\<close>

definition write_batch :: "env \<Rightarrow> string \<Rightarrow> doc list \<Rightarrow> state \<Rightarrow> bool \<times> state" where
  "write_batch E c docs s =
     (case insert_many E c docs s of
        (WriteOk, s') \<Rightarrow> (True, s')
      | (BulkWriteError errs, s') \<Rightarrow>
          (True, logger_warning (''BulkWriteError in '' @ c) (log_write_errors c errs s'))
      | (PyMongoError, s') \<Rightarrow> (False, logger_error (''Write error in '' @ c) s')
      | (OtherError, s') \<Rightarrow>
          (False, logger_error (''Unexpected error during write in '' @ c) s'))"

text \<open>One iteration of the \<open>while\<close> body: it leaves the loop or continues with a new count.\<close>

datatype step = Exit "exn option" int state | Continue int "fetch list" state

definition batch_step ::
  "env \<Rightarrow> string \<Rightarrow> int \<Rightarrow> int \<Rightarrow> int \<Rightarrow> fetch list \<Rightarrow> state \<Rightarrow> step" where
  "batch_step E c batch_size n migrated_count cursor s =
     (let (docs, cursor', s1) = fetch_batch E c (nat batch_size) migrated_count n cursor [] s
      in if docs = [] then Exit None migrated_count s1
         else let (ok, s2) = write_batch E c docs s1
              in if \<not> ok then Exit None migrated_count s2
                 else let migrated_count' = migrated_count + int (length docs)
                      in case progress_update (length docs) s2 of
                           (Some e, s3) \<Rightarrow> Exit (Some e) migrated_count' s3
                         | (None, s3) \<Rightarrow> Continue migrated_count' cursor' s3)"

function batch_loop ::
  "env \<Rightarrow> string \<Rightarrow> int \<Rightarrow> int \<Rightarrow> int \<Rightarrow> fetch list \<Rightarrow> state \<Rightarrow> exn option \<times> int \<times> state" where
  "batch_loop E c batch_size n migrated_count cursor s =
     (if migrated_count < n \<and> \<not> stop s
      then (case batch_step E c batch_size n migrated_count cursor s of
              Exit e migrated_count' s' \<Rightarrow> (e, migrated_count', s')
            | Continue migrated_count' cursor' s' \<Rightarrow>
                batch_loop E c batch_size n migrated_count' cursor' s')
      else (None, migrated_count, s))"
  by pat_completeness auto
termination
  by (relation "measure (\<lambda>(E, c, b, n, mc, cur, s). nat (n - mc))")
     (auto simp: batch_step_def Let_def split: prod.splits if_splits option.splits)

declare batch_loop.simps [simp del]

section \<open>One collection (lines 89 to 175 of \<open>_migrate\<close>)\<close>

text \<open>
  Lines 104 to 112, the empty collection. Both handlers of the engine that call
  \<open>logger.log_to_file\<close> with the message alone (lines 110 and 143) raise a TypeError,
  since \<open>log_to_file(self, level, message)\<close> has two required parameters; the handler
  of line 143 is not reachable, the one of line 110 is, and the TypeError leaves the
  collection loop.
\<close>

definition ensure_collection :: "env \<Rightarrow> string \<Rightarrow> state \<Rightarrow> exn option \<times> state" where
  "ensure_collection E c s =
     (let s1 = tick E s
      in if tgt_list_fails E then (Some TypeError, s1)
         else if c \<in> set (map fst (target s1))
         then (None, advance_overall
                 (log_to_file Info (c @ '' - Created empty collection.'') s1))
         else let s2 = tick E s1
              in if tgt_create_fails E then (Some TypeError, s2)
                 else (None, advance_overall
                         (log_to_file Info (c @ '' - Created empty collection.'')
                            (s2\<lparr>target := target s2 @ [(c, [])]\<rparr>))))"

definition cursor_close :: "env \<Rightarrow> string \<Rightarrow> src_coll \<Rightarrow> state \<Rightarrow> state" where
  "cursor_close E c sc s =
     (let s1 = tick E (s\<lparr>cursors_closed := Suc (cursors_closed s)\<rparr>)
      in if cursor_close_fails sc
         then logger_error (''Error closing cursor for '' @ c) s1
         else s1)"

text \<open>
  The body of the collection loop. The result is the exception that leaves the loop, if
  any, and the new state. \<open>find(...).batch_size(batch_size)\<close> raises for a negative
  batch size, which the handler of line 122 catches like any other cursor error.
\<close>

definition process_collection ::
  "env \<Rightarrow> int \<Rightarrow> int \<Rightarrow> string \<times> src_coll \<Rightarrow> state \<Rightarrow> exn option \<times> state" where
  "process_collection E percentage batch_size nc s =
     (let c = fst nc; sc = snd nc;
          s1 = tick E (s\<lparr>started := started s @ [(c, stop s)]\<rparr>)
      in if access_fails sc
         then (None, advance_overall (logger_error (''Error accessing collection '' @ c) s1))
         else let s2 = tick E s1
              in case est_count sc of
                   None \<Rightarrow>
                     (None, advance_overall
                        (logger_error (''Error counting documents in '' @ c) s2))
                 | Some total_docs \<Rightarrow>
                     if total_docs = 0 then ensure_collection E c s2
                     else let n = num_to_migrate total_docs percentage;
                              s3 = add_task c n (log_to_file Info (c @ '': migrating'') s2);
                              s4 = tick E s3
                          in if find_fails sc \<or> batch_size < 0
                             then (None, advance_overall
                                     (logger_error (''Error creating cursor for '' @ c) s4))
                             else let s5 = s4\<lparr>cursors_opened := Suc (cursors_opened s4)\<rparr>;
                                      (e, migrated_count, s6) =
                                         batch_loop E c batch_size n 0 (fetches sc) s5;
                                      s7 = (case e of
                                              None \<Rightarrow> s6
                                            | Some x \<Rightarrow>
                                                logger_error
                                                  (''Error migrating documents in '' @ c) s6);
                                      s8 = cursor_close E c sc s7;
                                      s9 = advance_overall s8
                                  in (None,
                                      log_to_file Info (''Completed '' @ c)
                                        (s9\<lparr>completed :=
                                              completed s9 @ [(c, migrated_count, total_docs)]\<rparr>)))"

fun collections_loop ::
  "env \<Rightarrow> int \<Rightarrow> int \<Rightarrow> (string \<times> src_coll) list \<Rightarrow> state \<Rightarrow> exn option \<times> state" where
  "collections_loop E percentage batch_size [] s = (None, s)"
| "collections_loop E percentage batch_size (nc # ncs) s =
     (if stop s then (None, s)
      else case process_collection E percentage batch_size nc s of
             (Some e, s') \<Rightarrow> (Some e, s')
           | (None, s') \<Rightarrow> collections_loop E percentage batch_size ncs s')"

section \<open>The run: \<open>_migrate\<close> and \<open>_safe_close\<close>\<close>

datatype flow = Proceed state | Return state | Raise exn state

text \<open>Lines 47 to 54: the handler catches the driver's errors only.\<close>

definition driver_call :: "env \<Rightarrow> fault \<Rightarrow> state \<Rightarrow> flow" where
  "driver_call E f s =
     (case f of
        NoFault \<Rightarrow> Proceed (tick E s)
      | MongoFault \<Rightarrow> Return (logger_error ''MongoDB connection error'' (tick E s))
      | OtherFault \<Rightarrow> Raise Unexpected (tick E s))"

definition connect :: "env \<Rightarrow> state \<Rightarrow> flow" where
  "connect E s =
     (case driver_call E (src_connect E) (s\<lparr>conn_attempts := Suc (conn_attempts s)\<rparr>) of
        Proceed s1 \<Rightarrow>
          (case driver_call E (tgt_connect E)
                  (s1\<lparr>src_client := Live, conn_attempts := Suc (conn_attempts s1)\<rparr>) of
             Proceed s2 \<Rightarrow>
               (case driver_call E (src_ping E) (s2\<lparr>tgt_client := Live\<rparr>) of
                  Proceed s3 \<Rightarrow> driver_call E (tgt_ping E) s3
                | r \<Rightarrow> r)
           | r \<Rightarrow> r)
      | r \<Rightarrow> r)"

text \<open>The \<open>try\<close> block of lines 45 to 178.\<close>

definition migrate_body :: "env \<Rightarrow> string \<Rightarrow> int \<Rightarrow> int \<Rightarrow> state \<Rightarrow> exn option \<times> state" where
  "migrate_body E db_name percentage batch_size s =
     (case connect E s of
        Raise e s' \<Rightarrow> (Some e, s')
      | Return s' \<Rightarrow> (None, s')
      | Proceed s1 \<Rightarrow>
          if db_access_fails E then (None, logger_error ''Error accessing database'' s1)
          else let s2 = tick E (logger_info (''Starting migration for database: '' @ db_name) s1)
               in if list_fails E then (None, logger_error ''Error listing collections'' s2)
                  else if source_colls E = []
                  then (None, logger_warning ''No collections found in source DB.'' s2)
                  else (case collections_loop E percentage batch_size (source_colls E)
                               (s2\<lparr>overall := 0, overall_total := length (source_colls E)\<rparr>) of
                          (Some e, s3) \<Rightarrow> (Some e, s3)
                        | (None, s3) \<Rightarrow>
                            (None, if stop s3 then s3
                                   else logger_info ''Migration complete.'' s3)))"

definition get_client :: "client \<Rightarrow> state \<Rightarrow> handle" where
  "get_client cl s = (case cl of Source \<Rightarrow> src_client s | Target \<Rightarrow> tgt_client s)"

definition set_client :: "client \<Rightarrow> handle \<Rightarrow> state \<Rightarrow> state" where
  "set_client cl h s = (case cl of Source \<Rightarrow> s\<lparr>src_client := h\<rparr> | Target \<Rightarrow> s\<lparr>tgt_client := h\<rparr>)"

definition close_fails :: "env \<Rightarrow> client \<Rightarrow> bool" where
  "close_fails E cl = (case cl of Source \<Rightarrow> src_close_fails E | Target \<Rightarrow> tgt_close_fails E)"

definition client_name :: "client \<Rightarrow> string" where
  "client_name cl = (case cl of Source \<Rightarrow> ''source'' | Target \<Rightarrow> ''target'')"

text \<open>\<open>client.close()\<close>: the exception it may raise, and the handle after the call.\<close>

definition client_close :: "env \<Rightarrow> client \<Rightarrow> state \<Rightarrow> exn option \<times> state" where
  "client_close E cl s =
     (if close_fails E cl then (Some Unexpected, set_client cl CloseFailed (tick E s))
      else (None, set_client cl Released (tick E s)))"

definition safe_close :: "env \<Rightarrow> client \<Rightarrow> state \<Rightarrow> state" where
  "safe_close E cl s =
     (if get_client cl s = NoClient then s
      else case client_close E cl s of
             (None, s') \<Rightarrow> s'
           | (Some e, s') \<Rightarrow>
               logger_error (''Error closing '' @ client_name cl @ '' client'') s')"

definition do_migrate :: "env \<Rightarrow> string \<Rightarrow> int \<Rightarrow> int \<Rightarrow> state \<Rightarrow> state" where
  "do_migrate E db_name percentage batch_size s =
     (let s0 = log_to_file Info ''=====''
                 (s\<lparr>src_client := NoClient, tgt_client := NoClient\<rparr>);
          (e, s1) = migrate_body E db_name percentage batch_size s0;
          s2 = (case e of None \<Rightarrow> s1 | Some x \<Rightarrow> logger_error ''Migration failed'' s1);
          s3 = safe_close E Source s2;
          s4 = safe_close E Target s3
      in log_to_file Info ''====='' s4)"

section \<open>The command: \<open>migrate\<close> of \<open>db_migration_service.py\<close>\<close>

definition lower_char :: "char \<Rightarrow> char" where
  "lower_char ch =
     (let k = (of_char ch :: nat) in if 65 \<le> k \<and> k \<le> 90 then char_of (k + 32) else ch)"

definition lower :: "string \<Rightarrow> string" where
  "lower = map lower_char"

text \<open>
  The result is the exit status of the process and the state. \<open>sys.exit(1)\<close> raises
  SystemExit, which is not an \<open>Exception\<close> and passes the handlers of lines 52 and 56;
  \<open>_migrate\<close> catches every exception itself, so the handler of line 52 is never
  entered and a run that returns ends with status 0.
\<close>

definition migrate :: "env \<Rightarrow> string \<Rightarrow> string \<Rightarrow> int \<Rightarrow> int \<Rightarrow> state \<Rightarrow> int \<times> state" where
  "migrate E direction db_name percentage batch_size s =
     (if \<not> (1 \<le> percentage \<and> percentage \<le> 100)
      then (1, logger_error ''Percentage must be between 1 and 100'' s)
      else if lower direction = ''to_local''
      then (0, logger_info ''Migration completed successfully.''
                 (do_migrate E db_name percentage batch_size s))
      else (1, logger_error (''Unknown migration direction: '' @ direction) s))"

section \<open>Measures of a run\<close>

fun step_state :: "step \<Rightarrow> state" where
  "step_state (Exit e migrated_count s) = s"
| "step_state (Continue migrated_count cursor s) = s"

fun flow_state :: "flow \<Rightarrow> state" where
  "flow_state (Proceed s) = s"
| "flow_state (Return s) = s"
| "flow_state (Raise e s) = s"

text \<open>The bulk inserts issued, and the collections begun, when the flag was already set.\<close>

definition late_writes :: "state \<Rightarrow> nat" where
  "late_writes s = length (filter (\<lambda>w. snd (snd w)) (writes s))"

definition late_starts :: "state \<Rightarrow> nat" where
  "late_starts s = length (filter snd (started s))"

definition late_bound :: "nat \<Rightarrow> state \<Rightarrow> bool" where
  "late_bound k s \<longleftrightarrow> late_writes s \<le> k \<or> (stop s \<and> late_writes s \<le> Suc k)"

text \<open>
  The batch loop with a bound on its iterations: \<open>None\<close> when the bound is reached
  before the loop has ended.
\<close>

fun batch_loop_fuel ::
  "nat \<Rightarrow> env \<Rightarrow> string \<Rightarrow> int \<Rightarrow> int \<Rightarrow> int \<Rightarrow> fetch list \<Rightarrow> state
     \<Rightarrow> (exn option \<times> int \<times> state) option" where
  "batch_loop_fuel fuel E c batch_size n migrated_count cursor s =
     (if migrated_count < n \<and> \<not> stop s
      then (case fuel of
              0 \<Rightarrow> None
            | Suc fuel' \<Rightarrow>
                (case batch_step E c batch_size n migrated_count cursor s of
                   Exit e migrated_count' s' \<Rightarrow> Some (e, migrated_count', s')
                 | Continue migrated_count' cursor' s' \<Rightarrow>
                     batch_loop_fuel fuel' E c batch_size n migrated_count' cursor' s'))
      else Some (None, migrated_count, s))"

declare batch_loop_fuel.simps [simp del]

section \<open>Concrete databases\<close>

definition healthy :: "(string \<times> src_coll) list \<Rightarrow> env" where
  "healthy colls =
     \<lparr>sigint_at = None, src_connect = NoFault, tgt_connect = NoFault, src_ping = NoFault,
      tgt_ping = NoFault, db_access_fails = False, list_fails = False, source_colls = colls,
      tgt_list_fails = False, tgt_create_fails = False, validate = (\<lambda>c d. None),
      src_close_fails = False, tgt_close_fails = False\<rparr>"

definition fresh :: state where
  "fresh =
     \<lparr>clock = 0, stop = False, target = [], write_faults = [], update_faults = [],
      src_client = NoClient, tgt_client = NoClient, conn_attempts = 0, logs = [],
      overall = 0, overall_total = 0, tasks = [], fetched = [], writes = [], started = [],
      completed = [], cursors_opened = 0, cursors_closed = 0\<rparr>"

definition coll_of :: "nat \<Rightarrow> doc list \<Rightarrow> src_coll" where
  "coll_of estimate ds =
     \<lparr>access_fails = False, est_count = Some estimate, find_fails = False,
      fetches = map Yield ds, cursor_close_fails = False\<rparr>"

definition docs_upto :: "nat \<Rightarrow> doc list" where
  "docs_upto k = map (\<lambda>i. Doc i []) [0..<k]"

definition one_doc :: "fetch list" where
  "one_doc = [Yield (Doc 0 [])]"

definition users3 :: "string \<times> src_coll" where
  "users3 = (''users'', coll_of 3 (docs_upto 3))"

definition failing_close :: env where
  "failing_close = (healthy [users3])\<lparr>src_close_fails := True\<rparr>"

definition interrupted :: env where
  "interrupted = (healthy [(''a'', coll_of 4 (docs_upto 4)), (''b'', coll_of 1 (docs_upto 1))])
                   \<lparr>sigint_at := Some 8\<rparr>"



definition two_docs :: env where
  "two_docs = healthy [(''a'', coll_of 2 (docs_upto 2))]"

definition holds_doc0 :: state where
  "holds_doc0 = fresh\<lparr>target := [(''a'', [Doc 0 ''old''])]\<rparr>"

definition rejecting :: env where
  "rejecting = two_docs\<lparr>validate := (\<lambda>c d. if doc_id d = 0 then Some 121 else None)\<rparr>"

definition end_to_end :: env where
  "end_to_end = healthy [(''users'', coll_of 100 (docs_upto 100)), (''empty'', coll_of 0 [])]"

definition net_fault :: state where
  "net_fault = fresh\<lparr>write_faults := [MongoFault]\<rparr>"

definition after_fetch :: state where
  "after_fetch = holds_doc0\<lparr>clock := 2, fetched := docs_upto 2\<rparr>"

definition coll_a :: "string \<times> src_coll" where
  "coll_a = (''a'', coll_of 2 (docs_upto 2))"

definition coll_b :: "string \<times> src_coll" where
  "coll_b = (''b'', coll_of 1 (docs_upto 1))"

section \<open>What each operation leaves unchanged\<close>

lemma num_to_migrate_spec_example: "num_to_migrate 7 50 = 4"
  by code_simp

lemmas log_defs = logger_info_def logger_warning_def logger_error_def log_to_file_def

lemma logger_log_fields [simp]:
  "clock (logger_log lv m s) = clock s"
  "stop (logger_log lv m s) = stop s"
  "target (logger_log lv m s) = target s"
  "write_faults (logger_log lv m s) = write_faults s"
  "update_faults (logger_log lv m s) = update_faults s"
  "src_client (logger_log lv m s) = src_client s"
  "tgt_client (logger_log lv m s) = tgt_client s"
  "conn_attempts (logger_log lv m s) = conn_attempts s"
  "logs (logger_log lv m s) = logs s @ [(lv, m)]"
  "overall (logger_log lv m s) = overall s"
  "overall_total (logger_log lv m s) = overall_total s"
  "tasks (logger_log lv m s) = tasks s"
  "fetched (logger_log lv m s) = fetched s"
  "writes (logger_log lv m s) = writes s"
  "started (logger_log lv m s) = started s"
  "completed (logger_log lv m s) = completed s"
  "cursors_opened (logger_log lv m s) = cursors_opened s"
  "cursors_closed (logger_log lv m s) = cursors_closed s"
  by (simp_all add: logger_log_def)

lemma tick_fields [simp]:
  "clock (tick E s) = Suc (clock s)"
  "stop (tick E s) = (stop s \<or> sigint_at E = Some (clock s))"
  "target (tick E s) = target s"
  "write_faults (tick E s) = write_faults s"
  "update_faults (tick E s) = update_faults s"
  "src_client (tick E s) = src_client s"
  "tgt_client (tick E s) = tgt_client s"
  "conn_attempts (tick E s) = conn_attempts s"
  "overall (tick E s) = overall s"
  "overall_total (tick E s) = overall_total s"
  "tasks (tick E s) = tasks s"
  "fetched (tick E s) = fetched s"
  "writes (tick E s) = writes s"
  "started (tick E s) = started s"
  "completed (tick E s) = completed s"
  "cursors_opened (tick E s) = cursors_opened s"
  "cursors_closed (tick E s) = cursors_closed s"
  by (simp_all add: tick_def handle_sigint_def logger_error_def Let_def)

lemma advance_task_fields [simp]:
  "clock (advance_task k s) = clock s"
  "stop (advance_task k s) = stop s"
  "target (advance_task k s) = target s"
  "write_faults (advance_task k s) = write_faults s"
  "update_faults (advance_task k s) = update_faults s"
  "src_client (advance_task k s) = src_client s"
  "tgt_client (advance_task k s) = tgt_client s"
  "conn_attempts (advance_task k s) = conn_attempts s"
  "logs (advance_task k s) = logs s"
  "overall (advance_task k s) = overall s"
  "overall_total (advance_task k s) = overall_total s"
  "fetched (advance_task k s) = fetched s"
  "writes (advance_task k s) = writes s"
  "started (advance_task k s) = started s"
  "completed (advance_task k s) = completed s"
  "cursors_opened (advance_task k s) = cursors_opened s"
  "cursors_closed (advance_task k s) = cursors_closed s"
  by (simp_all add: advance_task_def split: list.splits prod.splits)

lemma fetch_batch_frame:
  "fetch_batch E c k mc n cur docs s = (docs', cur', s') \<Longrightarrow>
     target s' = target s \<and> write_faults s' = write_faults s \<and>
     update_faults s' = update_faults s \<and> src_client s' = src_client s \<and>
     tgt_client s' = tgt_client s \<and> conn_attempts s' = conn_attempts s \<and>
     overall s' = overall s \<and> overall_total s' = overall_total s \<and>
     tasks s' = tasks s \<and> writes s' = writes s \<and> started s' = started s \<and>
     completed s' = completed s \<and> cursors_opened s' = cursors_opened s \<and>
     cursors_closed s' = cursors_closed s \<and> (stop s \<longrightarrow> stop s')"
proof (induction E c k mc n cur docs s rule: fetch_batch.induct)
  case (1 E c mc n cur docs s)
  then show ?case by simp
next
  case (2 E c k mc n cur docs s)
  then show ?case
    by (auto simp: log_defs split: if_splits list.splits fetch.splits)
qed

lemma store_frame:
  "store E c docs s = (r, s') \<Longrightarrow>
     clock s' = clock s \<and> stop s' = stop s \<and> write_faults s' = write_faults s \<and>
     update_faults s' = update_faults s \<and> src_client s' = src_client s \<and>
     tgt_client s' = tgt_client s \<and> conn_attempts s' = conn_attempts s \<and>
     logs s' = logs s \<and> overall s' = overall s \<and> overall_total s' = overall_total s \<and>
     tasks s' = tasks s \<and> fetched s' = fetched s \<and> writes s' = writes s \<and>
     started s' = started s \<and> completed s' = completed s \<and>
     cursors_opened s' = cursors_opened s \<and> cursors_closed s' = cursors_closed s"
  by (auto simp: store_def Let_def split: prod.splits)

lemma insert_many_frame:
  "insert_many E c docs s = (r, s') \<Longrightarrow>
     update_faults s' = update_faults s \<and> src_client s' = src_client s \<and>
     tgt_client s' = tgt_client s \<and> conn_attempts s' = conn_attempts s \<and>
     overall s' = overall s \<and> overall_total s' = overall_total s \<and>
     tasks s' = tasks s \<and> fetched s' = fetched s \<and>
     writes s' = writes s @ [(c, docs, stop s)] \<and>
     started s' = started s \<and> completed s' = completed s \<and>
     cursors_opened s' = cursors_opened s \<and> cursors_closed s' = cursors_closed s \<and>
     (stop s \<longrightarrow> stop s')"
  by (auto simp: insert_many_def Let_def split: list.splits fault.splits dest!: store_frame)

lemma log_write_errors_fields [simp]:
  "clock (log_write_errors c errs s) = clock s"
  "stop (log_write_errors c errs s) = stop s"
  "target (log_write_errors c errs s) = target s"
  "write_faults (log_write_errors c errs s) = write_faults s"
  "update_faults (log_write_errors c errs s) = update_faults s"
  "src_client (log_write_errors c errs s) = src_client s"
  "tgt_client (log_write_errors c errs s) = tgt_client s"
  "conn_attempts (log_write_errors c errs s) = conn_attempts s"
  "overall (log_write_errors c errs s) = overall s"
  "overall_total (log_write_errors c errs s) = overall_total s"
  "tasks (log_write_errors c errs s) = tasks s"
  "fetched (log_write_errors c errs s) = fetched s"
  "writes (log_write_errors c errs s) = writes s"
  "started (log_write_errors c errs s) = started s"
  "completed (log_write_errors c errs s) = completed s"
  "cursors_opened (log_write_errors c errs s) = cursors_opened s"
  "cursors_closed (log_write_errors c errs s) = cursors_closed s"
  unfolding log_write_errors_def
  by (induction errs arbitrary: s; simp add: log_defs)+

lemma write_batch_frame:
  "write_batch E c docs s = (ok, s') \<Longrightarrow>
     update_faults s' = update_faults s \<and> src_client s' = src_client s \<and>
     tgt_client s' = tgt_client s \<and> conn_attempts s' = conn_attempts s \<and>
     overall s' = overall s \<and> overall_total s' = overall_total s \<and>
     tasks s' = tasks s \<and> fetched s' = fetched s \<and>
     writes s' = writes s @ [(c, docs, stop s)] \<and>
     started s' = started s \<and> completed s' = completed s \<and>
     cursors_opened s' = cursors_opened s \<and> cursors_closed s' = cursors_closed s \<and>
     (stop s \<longrightarrow> stop s')"
  by (auto simp: write_batch_def log_defs split: prod.splits write_result.splits
           dest!: insert_many_frame)

lemma progress_update_frame:
  "progress_update k s = (e, s') \<Longrightarrow>
     clock s' = clock s \<and> stop s' = stop s \<and> target s' = target s \<and>
     write_faults s' = write_faults s \<and> src_client s' = src_client s \<and>
     tgt_client s' = tgt_client s \<and> conn_attempts s' = conn_attempts s \<and>
     logs s' = logs s \<and> overall s' = overall s \<and> overall_total s' = overall_total s \<and>
     fetched s' = fetched s \<and> writes s' = writes s \<and>
     started s' = started s \<and> completed s' = completed s \<and>
     cursors_opened s' = cursors_opened s \<and> cursors_closed s' = cursors_closed s"
  by (auto simp: progress_update_def split: list.splits if_splits)

section \<open>The batch loop\<close>

text \<open>What one iteration does, case by case.\<close>

lemma batch_step_cases:
  assumes "fetch_batch E c (nat b) mc n cur [] s = (docs, cur', s1)"
    and "write_batch E c docs s1 = (ok, s2)"
    and "progress_update (length docs) s2 = (e, s3)"
  shows "batch_step E c b n mc cur s =
     (if docs = [] then Exit None mc s1
      else if \<not> ok then Exit None mc s2
      else case e of
             Some x \<Rightarrow> Exit (Some x) (mc + int (length docs)) s3
           | None \<Rightarrow> Continue (mc + int (length docs)) cur' s3)"
  using assms by (simp add: batch_step_def Let_def split: option.splits)

lemma batch_step_frame:
  "batch_step E c b n mc cur s = r \<Longrightarrow>
     src_client (step_state r) = src_client s \<and> tgt_client (step_state r) = tgt_client s \<and>
     conn_attempts (step_state r) = conn_attempts s \<and> overall (step_state r) = overall s \<and>
     overall_total (step_state r) = overall_total s \<and> started (step_state r) = started s \<and>
     completed (step_state r) = completed s \<and>
     cursors_opened (step_state r) = cursors_opened s \<and>
     cursors_closed (step_state r) = cursors_closed s \<and>
     (stop s \<longrightarrow> stop (step_state r))"
proof -
  assume r: "batch_step E c b n mc cur s = r"
  obtain docs cur' s1 where f: "fetch_batch E c (nat b) mc n cur [] s = (docs, cur', s1)"
    by (cases "fetch_batch E c (nat b) mc n cur [] s") auto
  obtain ok s2 where w: "write_batch E c docs s1 = (ok, s2)"
    by (cases "write_batch E c docs s1") auto
  obtain e s3 where u: "progress_update (length docs) s2 = (e, s3)"
    by (cases "progress_update (length docs) s2") auto
  note F = fetch_batch_frame [OF f] and W = write_batch_frame [OF w]
    and U = progress_update_frame [OF u]
  show ?thesis
    using r F W U unfolding batch_step_cases [OF f w u]
    by (auto split: if_splits option.splits)
qed

lemma batch_step_writes:
  "batch_step E c b n mc cur s = r \<Longrightarrow>
     writes (step_state r) = writes s \<or>
     (\<exists>docs late. writes (step_state r) = writes s @ [(c, docs, late)] \<and>
                   (late \<longrightarrow> stop (step_state r)))"
proof -
  assume r: "batch_step E c b n mc cur s = r"
  obtain docs cur' s1 where f: "fetch_batch E c (nat b) mc n cur [] s = (docs, cur', s1)"
    by (cases "fetch_batch E c (nat b) mc n cur [] s") auto
  obtain ok s2 where w: "write_batch E c docs s1 = (ok, s2)"
    by (cases "write_batch E c docs s1") auto
  obtain e s3 where u: "progress_update (length docs) s2 = (e, s3)"
    by (cases "progress_update (length docs) s2") auto
  note F = fetch_batch_frame [OF f] and W = write_batch_frame [OF w]
    and U = progress_update_frame [OF u]
  show ?thesis
    using r F W U unfolding batch_step_cases [OF f w u]
    by (auto split: if_splits option.splits)
qed

lemma batch_step_Continue:
  assumes "batch_step E c b n mc cur s = Continue mc' cur' s'"
  shows "fst (fetch_batch E c (nat b) mc n cur [] s) \<noteq> [] \<and>
         mc' = mc + int (length (fst (fetch_batch E c (nat b) mc n cur [] s)))"
  using assms
  by (auto simp: batch_step_def Let_def split: prod.splits if_splits option.splits)

lemma batch_loop_frame:
  "batch_loop E c b n mc cur s = (e, mc', s') \<Longrightarrow>
     src_client s' = src_client s \<and> tgt_client s' = tgt_client s \<and>
     conn_attempts s' = conn_attempts s \<and> overall s' = overall s \<and>
     overall_total s' = overall_total s \<and> started s' = started s \<and>
     completed s' = completed s \<and> cursors_opened s' = cursors_opened s \<and>
     cursors_closed s' = cursors_closed s \<and> (stop s \<longrightarrow> stop s')"
proof (induction E c b n mc cur s rule: batch_loop.induct)
  case (1 E c b n mc cur s)
  show ?case
  proof (cases "mc < n \<and> \<not> stop s")
    case False
    with "1.prems" show ?thesis by (auto simp: batch_loop.simps)
  next
    case True
    show ?thesis
    proof (cases "batch_step E c b n mc cur s")
      case (Exit e1 m1 s1)
      with True "1.prems" batch_step_frame [OF Exit] show ?thesis
        by (auto simp: batch_loop.simps)
    next
      case (Continue m1 c1 s1)
      with True "1.prems" have "batch_loop E c b n m1 c1 s1 = (e, mc', s')"
        by (simp add: batch_loop.simps [of E c b n mc cur s])
      from "1.IH" [OF True Continue this] batch_step_frame [OF Continue]
      show ?thesis by auto
    qed
  qed
qed

lemma late_bound_quiet:
  "late_bound k s \<Longrightarrow> writes s' = writes s \<Longrightarrow> (stop s \<longrightarrow> stop s') \<Longrightarrow> late_bound k s'"
  by (auto simp: late_bound_def late_writes_def)

lemma batch_step_late:
  assumes "\<not> stop s" "late_bound k s" "batch_step E c b n mc cur s = r"
  shows "late_bound k (step_state r)"
  using batch_step_writes [OF assms(3)] assms(1,2)
  by (auto simp: late_bound_def late_writes_def)

lemma batch_loop_late:
  "late_bound k s \<Longrightarrow> batch_loop E c b n mc cur s = (e, mc', s') \<Longrightarrow> late_bound k s'"
proof (induction E c b n mc cur s rule: batch_loop.induct)
  case (1 E c b n mc cur s)
  show ?case
  proof (cases "mc < n \<and> \<not> stop s")
    case False
    with "1.prems" show ?thesis by (auto simp: batch_loop.simps)
  next
    case True
    show ?thesis
    proof (cases "batch_step E c b n mc cur s")
      case (Exit e1 m1 s1)
      with True "1.prems" batch_step_late [OF _ "1.prems"(1) Exit] show ?thesis
        by (auto simp: batch_loop.simps)
    next
      case (Continue m1 c1 s1)
      with True "1.prems" have "batch_loop E c b n m1 c1 s1 = (e, mc', s')"
        by (simp add: batch_loop.simps [of E c b n mc cur s])
      moreover have "late_bound k s1"
        using batch_step_late [OF _ "1.prems"(1) Continue] True by simp
      ultimately show ?thesis using "1.IH" [OF True Continue] by blast
    qed
  qed
qed

lemma batch_loop_stopped: "stop s \<Longrightarrow> batch_loop E c b n mc cur s = (None, mc, s)"
  by (simp add: batch_loop.simps)

lemma batch_loop_fuel_enough:
  "nat (n - mc) \<le> fuel \<Longrightarrow>
     batch_loop_fuel fuel E c b n mc cur s = Some (batch_loop E c b n mc cur s)"
proof (induction fuel arbitrary: mc cur s)
  case 0
  then show ?case by (simp add: batch_loop.simps batch_loop_fuel.simps)
next
  case (Suc fuel)
  show ?case
  proof (cases "mc < n \<and> \<not> stop s")
    case False
    then show ?thesis by (auto simp: batch_loop.simps batch_loop_fuel.simps)
  next
    case True
    show ?thesis
    proof (cases "batch_step E c b n mc cur s")
      case (Exit e1 m1 s1)
      with True show ?thesis by (simp add: batch_loop.simps batch_loop_fuel.simps)
    next
      case (Continue m1 c1 s1)
      from batch_step_Continue [OF Continue] have "mc < m1" by auto
      with Suc.prems True have "nat (n - m1) \<le> fuel" by linarith
      from Suc.IH [OF this] True Continue show ?thesis
        by (simp add: batch_loop.simps [of E c b n mc cur s]
                      batch_loop_fuel.simps [of "Suc fuel" E c b n mc cur s])
    qed
  qed
qed

section \<open>One collection\<close>

lemma advance_overall_fields [simp]:
  "clock (advance_overall s) = clock s"
  "stop (advance_overall s) = stop s"
  "target (advance_overall s) = target s"
  "src_client (advance_overall s) = src_client s"
  "tgt_client (advance_overall s) = tgt_client s"
  "conn_attempts (advance_overall s) = conn_attempts s"
  "logs (advance_overall s) = logs s"
  "overall (advance_overall s) = Suc (overall s)"
  "overall_total (advance_overall s) = overall_total s"
  "fetched (advance_overall s) = fetched s"
  "writes (advance_overall s) = writes s"
  "started (advance_overall s) = started s"
  "completed (advance_overall s) = completed s"
  "cursors_opened (advance_overall s) = cursors_opened s"
  "cursors_closed (advance_overall s) = cursors_closed s"
  by (simp_all add: advance_overall_def)

lemma add_task_fields [simp]:
  "clock (add_task c n s) = clock s"
  "stop (add_task c n s) = stop s"
  "target (add_task c n s) = target s"
  "src_client (add_task c n s) = src_client s"
  "tgt_client (add_task c n s) = tgt_client s"
  "conn_attempts (add_task c n s) = conn_attempts s"
  "logs (add_task c n s) = logs s"
  "overall (add_task c n s) = overall s"
  "overall_total (add_task c n s) = overall_total s"
  "fetched (add_task c n s) = fetched s"
  "writes (add_task c n s) = writes s"
  "started (add_task c n s) = started s"
  "completed (add_task c n s) = completed s"
  "cursors_opened (add_task c n s) = cursors_opened s"
  "cursors_closed (add_task c n s) = cursors_closed s"
  by (simp_all add: add_task_def)

lemma cursor_close_fields [simp]:
  "stop (cursor_close E c sc s) = (stop s \<or> sigint_at E = Some (clock s))"
  "target (cursor_close E c sc s) = target s"
  "src_client (cursor_close E c sc s) = src_client s"
  "tgt_client (cursor_close E c sc s) = tgt_client s"
  "conn_attempts (cursor_close E c sc s) = conn_attempts s"
  "overall (cursor_close E c sc s) = overall s"
  "overall_total (cursor_close E c sc s) = overall_total s"
  "fetched (cursor_close E c sc s) = fetched s"
  "writes (cursor_close E c sc s) = writes s"
  "started (cursor_close E c sc s) = started s"
  "completed (cursor_close E c sc s) = completed s"
  "cursors_opened (cursor_close E c sc s) = cursors_opened s"
  "cursors_closed (cursor_close E c sc s) = Suc (cursors_closed s)"
  by (simp_all add: cursor_close_def Let_def log_defs)

lemma ensure_collection_frame:
  "ensure_collection E c s = (e, s') \<Longrightarrow>
     src_client s' = src_client s \<and> tgt_client s' = tgt_client s \<and>
     conn_attempts s' = conn_attempts s \<and> overall_total s' = overall_total s \<and>
     fetched s' = fetched s \<and> writes s' = writes s \<and> started s' = started s \<and>
     completed s' = completed s \<and> cursors_opened s' = cursors_opened s \<and>
     cursors_closed s' = cursors_closed s \<and> (stop s \<longrightarrow> stop s') \<and>
     (e = None \<longrightarrow> overall s' = Suc (overall s))"
  by (auto simp: ensure_collection_def Let_def log_defs split: if_splits)

text \<open>The branch of a collection that has documents and whose cursor opens.\<close>

lemma process_collection_copy:
  assumes "\<not> access_fails (snd nc)" "est_count (snd nc) = Some t" "0 < t"
    and "\<not> find_fails (snd nc)" "0 \<le> b"
    and s5: "s5 = (let s4 = tick E (add_task (fst nc) (num_to_migrate t p)
                       (log_to_file Info (fst nc @ '': migrating'')
                          (tick E (tick E (s\<lparr>started := started s @ [(fst nc, stop s)]\<rparr>)))))
                   in s4\<lparr>cursors_opened := Suc (cursors_opened s4)\<rparr>)"
    and loop: "batch_loop E (fst nc) b (num_to_migrate t p) 0 (fetches (snd nc)) s5 = (e, mc, s6)"
  shows "process_collection E p b nc s =
     (let s7 = (case e of None \<Rightarrow> s6
                | Some x \<Rightarrow> logger_error (''Error migrating documents in '' @ fst nc) s6);
          s9 = advance_overall (cursor_close E (fst nc) (snd nc) s7)
      in (None, log_to_file Info (''Completed '' @ fst nc)
                  (s9\<lparr>completed := completed s9 @ [(fst nc, mc, t)]\<rparr>)))"
  using assms by (simp add: process_collection_def Let_def)

lemma process_collection_frame:
  assumes "process_collection E p b nc s = (e, s')"
  shows "src_client s' = src_client s \<and> tgt_client s' = tgt_client s \<and>
     conn_attempts s' = conn_attempts s \<and> overall_total s' = overall_total s \<and>
     started s' = started s @ [(fst nc, stop s)] \<and> (stop s \<longrightarrow> stop s') \<and>
     (e = None \<longrightarrow> overall s' = Suc (overall s)) \<and>
     (late_bound k s \<longrightarrow> late_bound k s')"
proof -
  show ?thesis
  proof (cases "access_fails (snd nc) \<or> est_count (snd nc) = None \<or>
               est_count (snd nc) = Some 0 \<or> find_fails (snd nc) \<or> b < 0")
    case False
    then obtain t where copy: "\<not> access_fails (snd nc)" "est_count (snd nc) = Some t" "0 < t"
      "\<not> find_fails (snd nc)" "0 \<le> b"
      by (cases "est_count (snd nc)") auto
    define s5 where "s5 = (let s4 = tick E (add_task (fst nc) (num_to_migrate t p)
                       (log_to_file Info (fst nc @ '': migrating'')
                          (tick E (tick E (s\<lparr>started := started s @ [(fst nc, stop s)]\<rparr>)))))
                   in s4\<lparr>cursors_opened := Suc (cursors_opened s4)\<rparr>)"
    obtain e6 mc s6 where
      loop: "batch_loop E (fst nc) b (num_to_migrate t p) 0 (fetches (snd nc)) s5 = (e6, mc, s6)"
      by (cases "batch_loop E (fst nc) b (num_to_migrate t p) 0 (fetches (snd nc)) s5") auto
    have pre: "src_client s5 = src_client s" "tgt_client s5 = tgt_client s"
      "conn_attempts s5 = conn_attempts s" "overall_total s5 = overall_total s"
      "started s5 = started s @ [(fst nc, stop s)]" "stop s \<longrightarrow> stop s5"
      "overall s5 = overall s" "writes s5 = writes s"
      by (simp_all add: s5_def Let_def log_defs)
    have lb: "late_bound k s \<longrightarrow> late_bound k s5"
      using pre by (auto intro: late_bound_quiet)
    note F = batch_loop_frame [OF loop]
    have L: "late_bound k s5 \<longrightarrow> late_bound k s6"
      using batch_loop_late [OF _ loop] by blast
    note eq = process_collection_copy [OF copy s5_def loop]
    have q: "late_bound k s6 \<longrightarrow> late_bound k s'"
      using assms unfolding eq
      by (auto simp: Let_def log_defs split: option.splits intro: late_bound_quiet)
    show ?thesis
      using assms F pre lb L q unfolding eq
      by (auto simp: Let_def log_defs split: option.splits)
  next
    case other: True
    have q: "writes s' = writes s \<and> (stop s \<longrightarrow> stop s')"
      using assms other
      by (auto simp: process_collection_def Let_def log_defs
               split: if_splits option.splits dest!: ensure_collection_frame)
    have "late_bound k s \<longrightarrow> late_bound k s'"
      using q by (auto intro: late_bound_quiet)
    moreover have "src_client s' = src_client s \<and> tgt_client s' = tgt_client s \<and>
       conn_attempts s' = conn_attempts s \<and> overall_total s' = overall_total s \<and>
       started s' = started s @ [(fst nc, stop s)] \<and> (stop s \<longrightarrow> stop s') \<and>
       (e = None \<longrightarrow> overall s' = Suc (overall s))"
      using assms other
      by (auto simp: process_collection_def Let_def log_defs
               split: if_splits option.splits dest!: ensure_collection_frame)
    ultimately show ?thesis by blast
  qed
qed

section \<open>The collection loop and the run\<close>

lemma late_starts_append [simp]:
  "started s' = started s @ [(c, False)] \<Longrightarrow> late_starts s' = late_starts s"
  by (simp add: late_starts_def)

lemma collections_loop_frame:
  "collections_loop E p b ncs s = (e, s') \<Longrightarrow>
     src_client s' = src_client s \<and> tgt_client s' = tgt_client s \<and>
     conn_attempts s' = conn_attempts s \<and> overall_total s' = overall_total s \<and>
     (stop s \<longrightarrow> stop s') \<and> (late_bound k s \<longrightarrow> late_bound k s') \<and>
     late_starts s' = late_starts s \<and>
     (e = None \<and> \<not> stop s' \<longrightarrow> overall s' = overall s + length ncs)"
proof (induction ncs arbitrary: s)
  case Nil
  then show ?case by simp
next
  case (Cons nc ncs)
  show ?case
  proof (cases "stop s")
    case True
    with Cons.prems show ?thesis by simp
  next
    case False
    obtain e1 s1 where p1: "process_collection E p b nc s = (e1, s1)"
      by (cases "process_collection E p b nc s") auto
    note P = process_collection_frame [OF p1, of k]
    show ?thesis
    proof (cases e1)
      case (Some x)
      with False p1 Cons.prems P show ?thesis by auto
    next
      case None
      with False p1 Cons.prems have "collections_loop E p b ncs s1 = (e, s')" by simp
      from Cons.IH [OF this] P None False show ?thesis by auto
    qed
  qed
qed

lemma collections_loop_stopped: "stop s \<Longrightarrow> collections_loop E p b ncs s = (None, s)"
  by (cases ncs) simp_all

lemma driver_call_frame:
  "driver_call E f s = r \<Longrightarrow>
     src_client (flow_state r) = src_client s \<and> tgt_client (flow_state r) = tgt_client s \<and>
     conn_attempts (flow_state r) = conn_attempts s \<and> writes (flow_state r) = writes s \<and>
     started (flow_state r) = started s \<and> target (flow_state r) = target s \<and>
     fetched (flow_state r) = fetched s \<and>
     (stop s \<longrightarrow> stop (flow_state r)) \<and>
     ((\<exists>s'. r = Proceed s') \<longleftrightarrow> f = NoFault)"
  by (auto simp: driver_call_def log_defs split: fault.splits)

lemma connect_frame:
  assumes "connect E s = r"
  shows "src_client (flow_state r) = (if src_connect E = NoFault then Live else src_client s) \<and>
     tgt_client (flow_state r) =
       (if src_connect E = NoFault \<and> tgt_connect E = NoFault then Live else tgt_client s) \<and>
     writes (flow_state r) = writes s \<and> started (flow_state r) = started s \<and>
     (stop s \<longrightarrow> stop (flow_state r))"
proof -
  let ?s0 = "s\<lparr>conn_attempts := Suc (conn_attempts s)\<rparr>"
  show ?thesis
  proof (cases "driver_call E (src_connect E) ?s0")
    case (Proceed s1)
    note D1 = driver_call_frame [OF Proceed]
    let ?s1 = "s1\<lparr>src_client := Live, conn_attempts := Suc (conn_attempts s1)\<rparr>"
    show ?thesis
    proof (cases "driver_call E (tgt_connect E) ?s1")
      case P2: (Proceed s2)
      note D2 = driver_call_frame [OF P2]
      show ?thesis
      proof (cases "driver_call E (src_ping E) (s2\<lparr>tgt_client := Live\<rparr>)")
        case P3: (Proceed s3)
        note D3 = driver_call_frame [OF P3]
        have "r = driver_call E (tgt_ping E) s3"
          using assms Proceed P2 P3 by (simp add: connect_def)
        from driver_call_frame [OF this [symmetric]] D1 D2 D3 show ?thesis by auto
      next
        case R3: (Return s3)
        with assms Proceed P2 have "r = Return s3" by (simp add: connect_def)
        with driver_call_frame [OF R3] D1 D2 show ?thesis by auto
      next
        case R3: (Raise x s3)
        with assms Proceed P2 have "r = Raise x s3" by (simp add: connect_def)
        with driver_call_frame [OF R3] D1 D2 show ?thesis by auto
      qed
    next
      case R2: (Return s2)
      with assms Proceed have "r = Return s2" by (simp add: connect_def)
      with driver_call_frame [OF R2] D1 show ?thesis by auto
    next
      case R2: (Raise x s2)
      with assms Proceed have "r = Raise x s2" by (simp add: connect_def)
      with driver_call_frame [OF R2] D1 show ?thesis by auto
    qed
  next
    case (Return s1)
    with assms have "r = Return s1" by (simp add: connect_def)
    with driver_call_frame [OF Return] show ?thesis by auto
  next
    case (Raise x s1)
    with assms have "r = Raise x s1" by (simp add: connect_def)
    with driver_call_frame [OF Raise] show ?thesis by auto
  qed
qed

lemma migrate_body_frame:
  assumes "migrate_body E db p b s = (e, s')"
  shows "src_client s' = (if src_connect E = NoFault then Live else src_client s) \<and>
     tgt_client s' =
       (if src_connect E = NoFault \<and> tgt_connect E = NoFault then Live else tgt_client s) \<and>
     (stop s \<longrightarrow> stop s') \<and> (late_bound k s \<longrightarrow> late_bound k s') \<and>
     late_starts s' = late_starts s"
proof (cases "connect E s")
  case (Proceed s1)
  note C = connect_frame [OF Proceed]
  have lb1: "late_bound k s \<longrightarrow> late_bound k s1"
    using C by (auto intro: late_bound_quiet)
  have ls1: "late_starts s1 = late_starts s"
    using C by (simp add: late_starts_def)
  define s2 where "s2 = (tick E (logger_info (''Starting migration for database: '' @ db) s1))
      \<lparr>overall := 0, overall_total := length (source_colls E)\<rparr>"
  have s2: "src_client s2 = src_client s1" "tgt_client s2 = tgt_client s1"
    "stop s1 \<longrightarrow> stop s2" "writes s2 = writes s1" "started s2 = started s1"
    by (simp_all add: s2_def log_defs)
  have lb2: "late_bound k s1 \<longrightarrow> late_bound k s2"
    using s2 by (auto intro: late_bound_quiet)
  have ls2: "late_starts s2 = late_starts s1"
    using s2 by (simp add: late_starts_def)
  show ?thesis
  proof (cases "db_access_fails E \<or> list_fails E \<or> source_colls E = []")
    case True
    then have "writes s' = writes s1 \<and> started s' = started s1 \<and> (stop s1 \<longrightarrow> stop s') \<and>
       src_client s' = src_client s1 \<and> tgt_client s' = tgt_client s1"
      using assms Proceed by (auto simp: migrate_body_def Let_def log_defs split: if_splits)
    moreover from this have "late_bound k s1 \<longrightarrow> late_bound k s'" "late_starts s' = late_starts s1"
      by (auto intro: late_bound_quiet simp: late_starts_def)
    ultimately show ?thesis using C lb1 ls1 by auto
  next
    case False
    obtain e3 s3 where
      loop: "collections_loop E p b (source_colls E) s2 = (e3, s3)"
      by (cases "collections_loop E p b (source_colls E) s2") auto
    note L = collections_loop_frame [OF loop, of k]
    have "writes s' = writes s3 \<and> started s' = started s3 \<and> (stop s3 \<longrightarrow> stop s') \<and>
       src_client s' = src_client s3 \<and> tgt_client s' = tgt_client s3"
      using assms Proceed False loop
      by (auto simp: migrate_body_def Let_def s2_def log_defs split: if_splits option.splits)
    moreover from this have "late_bound k s3 \<longrightarrow> late_bound k s'" "late_starts s' = late_starts s3"
      by (auto intro: late_bound_quiet simp: late_starts_def)
    ultimately show ?thesis using C lb1 ls1 s2 lb2 ls2 L by auto
  qed
next
  case (Return s1)
  note C = connect_frame [OF Return]
  have "s' = s1" using assms Return by (simp add: migrate_body_def)
  moreover have "late_bound k s \<longrightarrow> late_bound k s1" "late_starts s1 = late_starts s"
    using C by (auto intro: late_bound_quiet simp: late_starts_def)
  ultimately show ?thesis using C by auto
next
  case (Raise x s1)
  note C = connect_frame [OF Raise]
  have "s' = s1" using assms Raise by (simp add: migrate_body_def)
  moreover have "late_bound k s \<longrightarrow> late_bound k s1" "late_starts s1 = late_starts s"
    using C by (auto intro: late_bound_quiet simp: late_starts_def)
  ultimately show ?thesis using C by auto
qed

lemma safe_close_fields:
  "writes (safe_close E cl s) = writes s"
  "started (safe_close E cl s) = started s"
  "target (safe_close E cl s) = target s"
  "stop s \<longrightarrow> stop (safe_close E cl s)"
  "get_client cl (safe_close E cl s) =
     (if get_client cl s = NoClient then NoClient
      else if close_fails E cl then CloseFailed else Released)"
  "src_client (safe_close E Target s) = src_client s"
  "tgt_client (safe_close E Source s) = tgt_client s"
  by (auto simp: safe_close_def client_close_def get_client_def set_client_def log_defs
           split: client.splits)

lemma do_migrate_clients:
  "src_client (do_migrate E db p b s) =
     (if src_connect E \<noteq> NoFault then NoClient
      else if src_close_fails E then CloseFailed else Released)"
  "tgt_client (do_migrate E db p b s) =
     (if src_connect E \<noteq> NoFault \<or> tgt_connect E \<noteq> NoFault then NoClient
      else if tgt_close_fails E then CloseFailed else Released)"
proof -
  define s0 where "s0 = log_to_file Info ''=====''
                 (s\<lparr>src_client := NoClient, tgt_client := NoClient\<rparr>)"
  obtain e s1 where body: "migrate_body E db p b s0 = (e, s1)"
    by (cases "migrate_body E db p b s0") auto
  define s2 where "s2 = (case e of None \<Rightarrow> s1 | Some x \<Rightarrow> logger_error ''Migration failed'' s1)"
  have eq: "do_migrate E db p b s =
      log_to_file Info ''====='' (safe_close E Target (safe_close E Source s2))"
    using body by (simp add: do_migrate_def Let_def s0_def s2_def)
  note B = migrate_body_frame [OF body, of 0]
  have s2: "src_client s2 = src_client s1" "tgt_client s2 = tgt_client s1"
    by (simp_all add: s2_def log_defs split: option.splits)
  have s0: "src_client s0 = NoClient" "tgt_client s0 = NoClient"
    by (simp_all add: s0_def log_defs)
  show "src_client (do_migrate E db p b s) =
     (if src_connect E \<noteq> NoFault then NoClient
      else if src_close_fails E then CloseFailed else Released)"
    using safe_close_fields(5) [of Source E s2] safe_close_fields(6) [of E "safe_close E Source s2"]
      B s2 s0
    by (auto simp: eq log_defs get_client_def close_fails_def)
  show "tgt_client (do_migrate E db p b s) =
     (if src_connect E \<noteq> NoFault \<or> tgt_connect E \<noteq> NoFault then NoClient
      else if tgt_close_fails E then CloseFailed else Released)"
    using safe_close_fields(5) [of Target E "safe_close E Source s2"]
      safe_close_fields(7) [of E s2] B s2 s0
    by (auto simp: eq log_defs get_client_def close_fails_def)
qed

lemma do_migrate_late:
  "late_writes (do_migrate E db p b s) \<le> Suc (late_writes s)"
  "late_starts (do_migrate E db p b s) = late_starts s"
proof -
  define s0 where "s0 = log_to_file Info ''=====''
                 (s\<lparr>src_client := NoClient, tgt_client := NoClient\<rparr>)"
  obtain e s1 where body: "migrate_body E db p b s0 = (e, s1)"
    by (cases "migrate_body E db p b s0") auto
  define s2 where "s2 = (case e of None \<Rightarrow> s1 | Some x \<Rightarrow> logger_error ''Migration failed'' s1)"
  have eq: "do_migrate E db p b s =
      log_to_file Info ''====='' (safe_close E Target (safe_close E Source s2))"
    using body by (simp add: do_migrate_def Let_def s0_def s2_def)
  note B = migrate_body_frame [OF body, of "late_writes s"]
  have "late_bound (late_writes s) s0"
    by (simp add: late_bound_def s0_def log_defs late_writes_def)
  with B have "late_bound (late_writes s) s1" by blast
  moreover have "writes (do_migrate E db p b s) = writes s1"
    by (simp add: eq log_defs safe_close_fields s2_def split: option.splits)
  ultimately show "late_writes (do_migrate E db p b s) \<le> Suc (late_writes s)"
    by (auto simp: late_bound_def late_writes_def)
  have "started (do_migrate E db p b s) = started s1"
    by (simp add: eq log_defs safe_close_fields s2_def split: option.splits)
  moreover have "late_starts s0 = late_starts s"
    by (simp add: late_starts_def s0_def log_defs)
  ultimately show "late_starts (do_migrate E db p b s) = late_starts s"
    using B by (simp add: late_starts_def)
qed

section \<open>Claims\<close>

text \<open>
  C3 (the planned count is the exact ceiling of \<open>N * p / 100\<close>): the code computes the
  count in floating point, and for 100 documents at 7 percent the double nearest to
  \<open>0.07\<close> lies above \<open>7/100\<close>, the product rounds to \<open>7.000000000000001\<close> and the
  ceiling is 8, where the exact ceiling is 7.
\<close>

theorem num_to_migrate_100_7:
  "num_to_migrate 100 7 = 8 \<and> exact_ceiling 100 7 = 7"
  by code_simp

text \<open>
  C10 (the batch loop terminates): an iteration that does not leave the loop has pulled a
  non-empty batch and adds its length to \<open>migrated_count\<close>; the loop runs only while
  \<open>migrated_count < num_to_migrate\<close>; so \<open>num_to_migrate - migrated_count\<close> iterations
  are always enough for the loop to return.
\<close>

theorem batch_loop_terminates:
  "(batch_step E c b n mc cur s = Continue mc' cur' s' \<longrightarrow>
      fst (fetch_batch E c (nat b) mc n cur [] s) \<noteq> [] \<and>
      mc' = mc + int (length (fst (fetch_batch E c (nat b) mc n cur [] s))) \<and> mc < mc') \<and>
   (\<not> mc < n \<longrightarrow> batch_loop E c b n mc cur s = (None, mc, s)) \<and>
   (nat (n - mc) \<le> fuel \<longrightarrow>
      batch_loop_fuel fuel E c b n mc cur s = Some (batch_loop E c b n mc cur s))"
proof (intro conjI impI)
  assume st: "batch_step E c b n mc cur s = Continue mc' cur' s'"
  from batch_step_Continue [OF st]
  show "fst (fetch_batch E c (nat b) mc n cur [] s) \<noteq> []"
    and "mc' = mc + int (length (fst (fetch_batch E c (nat b) mc n cur [] s)))"
    and "mc < mc'"
    by auto
next
  assume "\<not> mc < n"
  then show "batch_loop E c b n mc cur s = (None, mc, s)"
    by (simp add: batch_loop.simps)
next
  assume "nat (n - mc) \<le> fuel"
  then show "batch_loop_fuel fuel E c b n mc cur s = Some (batch_loop E c b n mc cur s)"
    by (rule batch_loop_fuel_enough)
qed

lemma one_doc_step:
  "\<exists>s'. batch_step (healthy []) ''users'' 1 2 0 one_doc fresh = Continue 1 [] s'"
  by (simp add: batch_step_def one_doc_def healthy_def fresh_def tick_def Let_def
        write_batch_def insert_many_def store_def get_coll_def progress_update_def
        advance_task_def)

theorem batch_loop_terminates_witness:
  "(\<exists>s'. batch_step (healthy []) ''users'' 1 2 0 one_doc fresh = Continue 1 [] s' \<and> (0::int) < 1) \<and>
   \<not> (2::int) < 2 \<and> batch_loop (healthy []) ''users'' 1 2 2 [] fresh = (None, 2, fresh) \<and>
   nat (2 - 0) \<le> 2 \<and>
   batch_loop_fuel 2 (healthy []) ''users'' 1 2 0 one_doc fresh =
     Some (batch_loop (healthy []) ''users'' 1 2 0 one_doc fresh)"
proof -
  obtain s' where st: "batch_step (healthy []) ''users'' 1 2 0 one_doc fresh = Continue 1 [] s'"
    using one_doc_step by blast
  from batch_loop_terminates [where E = "healthy []" and c = "''users''" and b = 1 and n = 2
      and mc = 0 and cur = one_doc and s = fresh and mc' = 1 and cur' = "[]" and s' = s'
      and fuel = 2] st
  have "(0::int) < 1"
    and "batch_loop_fuel 2 (healthy []) ''users'' 1 2 0 one_doc fresh =
       Some (batch_loop (healthy []) ''users'' 1 2 0 one_doc fresh)"
    by simp_all
  moreover from batch_loop_terminates [where E = "healthy []" and c = "''users''" and b = 1
      and n = 2 and mc = 2 and cur = "[]" and s = fresh]
  have "batch_loop (healthy []) ''users'' 1 2 2 [] fresh = (None, 2, fresh)" by simp
  ultimately show ?thesis using st by simp
qed

text \<open>
  C9 (the cursor is released on every exit): whatever the batch loop does (planned count
  reached, empty batch, write error, exception of the progress display, interrupt) and
  whatever the driver answers, a collection whose cursor was created ends with exactly
  one more cursor opened and one more \<open>cursor.close()\<close> called, and the exception of the
  loop does not leave the collection; a collection that creates no cursor closes none.
\<close>

theorem cursor_always_closed:
  "cursors_opened (snd (process_collection E p b nc s)) + cursors_closed s =
     cursors_closed (snd (process_collection E p b nc s)) + cursors_opened s \<and>
   (\<not> access_fails (snd nc) \<and> est_count (snd nc) = Some t \<and> 0 < t \<and>
    \<not> find_fails (snd nc) \<and> 0 \<le> b \<longrightarrow>
      fst (process_collection E p b nc s) = None \<and>
      cursors_opened (snd (process_collection E p b nc s)) = Suc (cursors_opened s) \<and>
      cursors_closed (snd (process_collection E p b nc s)) = Suc (cursors_closed s))"
proof -
  have copy: "fst (process_collection E p b nc s) = None \<and>
      cursors_opened (snd (process_collection E p b nc s)) = Suc (cursors_opened s) \<and>
      cursors_closed (snd (process_collection E p b nc s)) = Suc (cursors_closed s)"
    if c: "\<not> access_fails (snd nc)" "est_count (snd nc) = Some t" "0 < t"
      "\<not> find_fails (snd nc)" "0 \<le> b" for t
  proof -
    define s5 where "s5 = (let s4 = tick E (add_task (fst nc) (num_to_migrate t p)
                       (log_to_file Info (fst nc @ '': migrating'')
                          (tick E (tick E (s\<lparr>started := started s @ [(fst nc, stop s)]\<rparr>)))))
                   in s4\<lparr>cursors_opened := Suc (cursors_opened s4)\<rparr>)"
    obtain e6 mc s6 where
      loop: "batch_loop E (fst nc) b (num_to_migrate t p) 0 (fetches (snd nc)) s5 = (e6, mc, s6)"
      by (cases "batch_loop E (fst nc) b (num_to_migrate t p) 0 (fetches (snd nc)) s5") auto
    have pre: "cursors_opened s5 = Suc (cursors_opened s)" "cursors_closed s5 = cursors_closed s"
      by (simp_all add: s5_def Let_def log_defs)
    note F = batch_loop_frame [OF loop]
    note eq = process_collection_copy [OF c s5_def loop]
    show ?thesis
      using F pre unfolding eq by (auto simp: Let_def log_defs split: option.splits)
  qed
  have other: "cursors_opened (snd (process_collection E p b nc s)) = cursors_opened s \<and>
      cursors_closed (snd (process_collection E p b nc s)) = cursors_closed s"
    if o: "access_fails (snd nc) \<or> est_count (snd nc) = None \<or>
           est_count (snd nc) = Some 0 \<or> find_fails (snd nc) \<or> b < 0"
  proof -
    obtain e s' where r: "process_collection E p b nc s = (e, s')"
      by (cases "process_collection E p b nc s") auto
    have "cursors_opened s' = cursors_opened s \<and> cursors_closed s' = cursors_closed s"
      using r o
      by (auto simp: process_collection_def Let_def log_defs
               split: if_splits option.splits dest!: ensure_collection_frame)
    then show ?thesis by (simp add: r)
  qed
  show ?thesis
  proof (cases "access_fails (snd nc) \<or> est_count (snd nc) = None \<or>
               est_count (snd nc) = Some 0 \<or> find_fails (snd nc) \<or> b < 0")
    case True
    from other [OF True] True show ?thesis by auto
  next
    case False
    then obtain t' where c: "\<not> access_fails (snd nc)" "est_count (snd nc) = Some t'" "0 < t'"
      "\<not> find_fails (snd nc)" "0 \<le> b"
      by (cases "est_count (snd nc)") auto
    from copy [OF c] c show ?thesis by auto
  qed
qed

theorem cursor_always_closed_witness:
  "\<not> access_fails (snd users3) \<and> est_count (snd users3) = Some 3 \<and> (0::nat) < 3 \<and>
   \<not> find_fails (snd users3) \<and> (0::int) \<le> 2 \<and>
   fst (process_collection (healthy [users3]) 100 2 users3 fresh) = None \<and>
   cursors_opened (snd (process_collection (healthy [users3]) 100 2 users3 fresh)) = 1 \<and>
   cursors_closed (snd (process_collection (healthy [users3]) 100 2 users3 fresh)) = 1"
  using cursor_always_closed [of "healthy [users3]" 100 2 users3 fresh 3]
  by (simp add: users3_def coll_of_def fresh_def)

text \<open>
  C8 (every opened client is closed, and closing never raises): after \<open>_migrate\<close>, on
  every path and for every answer of the driver, neither handle is live: a client that
  was constructed has had \<open>close()\<close> called on it, one that was not is still \<open>None\<close>.
  \<open>_safe_close\<close> returns normally in every case: on \<open>None\<close> it does nothing, an exception
  of \<open>close()\<close> is logged as an error, and a second call leaves the handle as it is.
\<close>

theorem clients_closed_on_every_path:
  "src_client (do_migrate E db p b s) \<noteq> Live \<and> tgt_client (do_migrate E db p b s) \<noteq> Live \<and>
   src_client (do_migrate E db p b s) =
     (if src_connect E \<noteq> NoFault then NoClient
      else if src_close_fails E then CloseFailed else Released) \<and>
   tgt_client (do_migrate E db p b s) =
     (if src_connect E \<noteq> NoFault \<or> tgt_connect E \<noteq> NoFault then NoClient
      else if tgt_close_fails E then CloseFailed else Released) \<and>
   (get_client cl s = NoClient \<longrightarrow> safe_close E cl s = s) \<and>
   get_client cl (safe_close E cl s) \<noteq> Live \<and>
   get_client cl (safe_close E cl (safe_close E cl s)) = get_client cl (safe_close E cl s) \<and>
   (get_client cl s \<noteq> NoClient \<and> close_fails E cl \<longrightarrow>
      fst (client_close E cl s) = Some Unexpected \<and>
      last (logs (safe_close E cl s)) = (Error, ''Error closing '' @ client_name cl @ '' client''))"
proof -
  have a: "get_client cl (safe_close E cl s) \<noteq> Live" for s
    by (simp add: safe_close_fields)
  have b: "get_client cl (safe_close E cl (safe_close E cl s)) = get_client cl (safe_close E cl s)"
    by (simp add: safe_close_fields)
  have c: "get_client cl s = NoClient \<longrightarrow> safe_close E cl s = s"
    by (simp add: safe_close_def)
  have d: "get_client cl s \<noteq> NoClient \<and> close_fails E cl \<longrightarrow>
      fst (client_close E cl s) = Some Unexpected \<and>
      last (logs (safe_close E cl s)) = (Error, ''Error closing '' @ client_name cl @ '' client'')"
    by (simp add: safe_close_def client_close_def log_defs)
  show ?thesis
    using a b c d by (simp add: do_migrate_clients)
qed

theorem clients_closed_on_every_path_witness:
  "get_client Source fresh = NoClient \<and> safe_close failing_close Source fresh = fresh \<and>
   get_client Source (fresh\<lparr>src_client := Live\<rparr>) \<noteq> NoClient \<and> close_fails failing_close Source \<and>
   last (logs (safe_close failing_close Source (fresh\<lparr>src_client := Live\<rparr>))) =
     (Error, ''Error closing source client'') \<and>
   src_client (do_migrate failing_close ''db'' 100 2 fresh) = CloseFailed \<and>
   tgt_client (do_migrate failing_close ''db'' 100 2 fresh) = Released"
  using clients_closed_on_every_path [of failing_close "''db''" 100 2 fresh Source]
    clients_closed_on_every_path [of failing_close "''db''" 100 2 "fresh\<lparr>src_client := Live\<rparr>" Source]
  by (simp add: failing_close_def healthy_def fresh_def get_client_def close_fails_def
        client_name_def)

lemma insert_many_in_flight:
  "fst (insert_many E c docs s) = fst (insert_many (E\<lparr>sigint_at := None\<rparr>) c docs s) \<and>
   target (snd (insert_many E c docs s)) =
     target (snd (insert_many (E\<lparr>sigint_at := None\<rparr>) c docs s))"
  by (simp add: insert_many_def store_def Let_def tick_def handle_sigint_def log_defs
        logger_log_def split: list.splits fault.splits prod.splits)

text \<open>
  C7 (cancellation): the flag is set by the interrupt handler during some driver call.
  A batch loop or a collection loop that finds the flag set returns at once, without
  another driver call. Over a whole run, at most one bulk insert is issued with the flag
  already set (the batch that was being pulled when the interrupt arrived), no
  collection is begun with the flag set, the run returns (every loop of it is a total
  function) and leaves no handle live. An \<open>insert_many\<close> during which the interrupt
  arrives stores what it would have stored without it.
\<close>

theorem cancellation_stops_within_one_batch:
  "(stop s \<longrightarrow> batch_loop E c b n mc cur s = (None, mc, s)) \<and>
   (stop s \<longrightarrow> collections_loop E p b ncs s = (None, s)) \<and>
   late_writes (do_migrate E db p b s) \<le> Suc (late_writes s) \<and>
   late_starts (do_migrate E db p b s) = late_starts s \<and>
   src_client (do_migrate E db p b s) \<noteq> Live \<and>
   tgt_client (do_migrate E db p b s) \<noteq> Live \<and>
   fst (insert_many E c docs s) = fst (insert_many (E\<lparr>sigint_at := None\<rparr>) c docs s) \<and>
   target (snd (insert_many E c docs s)) =
     target (snd (insert_many (E\<lparr>sigint_at := None\<rparr>) c docs s))"
  using batch_loop_stopped [of s E c b n mc cur] collections_loop_stopped [of s E p b ncs]
    do_migrate_late [of E db p b s] insert_many_in_flight [of E c docs s]
  by (simp add: do_migrate_clients)

theorem cancellation_stops_within_one_batch_witness:
  "stop (fresh\<lparr>stop := True\<rparr>) \<and>
   batch_loop interrupted ''a'' 1 4 0 one_doc (fresh\<lparr>stop := True\<rparr>) =
     (None, 0, fresh\<lparr>stop := True\<rparr>) \<and>
   collections_loop interrupted 100 1 (source_colls interrupted) (fresh\<lparr>stop := True\<rparr>) =
     (None, fresh\<lparr>stop := True\<rparr>) \<and>
   late_writes (do_migrate interrupted ''db'' 100 1 fresh) \<le> 1 \<and>
   late_starts (do_migrate interrupted ''db'' 100 1 fresh) = 0"
  using cancellation_stops_within_one_batch
    [of "fresh\<lparr>stop := True\<rparr>" interrupted "''a''" 1 4 0 one_doc 100 "source_colls interrupted"]
    cancellation_stops_within_one_batch [of fresh interrupted _ 1 _ _ _ 100 _ "''db''"]
  by (simp add: fresh_def late_writes_def late_starts_def)

lemma interrupted_run:
  "map (\<lambda>(c, ds, late). (c, length ds, late)) (writes (do_migrate interrupted ''db'' 100 1 fresh)) =
     [(''a'', 1, True)] \<and>
   started (do_migrate interrupted ''db'' 100 1 fresh) = [(''a'', False)] \<and>
   stop (do_migrate interrupted ''db'' 100 1 fresh)"
  by code_simp

text \<open>
  C5 (percentage and batch size are validated before any connection): the command
  checks the percentage only. A batch size of 0 with a valid percentage is passed on to
  \<open>_migrate\<close>, which constructs both clients, and the process ends with status 0.
\<close>

theorem batch_size_not_validated:
  "fst (migrate (healthy [users3]) ''to_local'' ''db'' 50 0 fresh) = 0 \<and>
   conn_attempts (snd (migrate (healthy [users3]) ''to_local'' ''db'' 50 0 fresh)) = 2"
  by code_simp

text \<open>
  C5, amended: for a percentage outside 1..100 the process ends with status 1 before
  any driver call: no client is constructed, the clock of driver calls, both handles
  and the target database are as before, nothing is read and nothing is written.
\<close>

theorem percentage_validated_first:
  assumes "percentage < 1 \<or> 100 < percentage"
  shows "fst (migrate E direction db percentage b s) = 1 \<and>
     conn_attempts (snd (migrate E direction db percentage b s)) = conn_attempts s \<and>
     clock (snd (migrate E direction db percentage b s)) = clock s \<and>
     src_client (snd (migrate E direction db percentage b s)) = src_client s \<and>
     tgt_client (snd (migrate E direction db percentage b s)) = tgt_client s \<and>
     target (snd (migrate E direction db percentage b s)) = target s \<and>
     fetched (snd (migrate E direction db percentage b s)) = fetched s \<and>
     writes (snd (migrate E direction db percentage b s)) = writes s"
  using assms by (auto simp: migrate_def log_defs)

theorem percentage_validated_first_witness:
  "((0::int) < 1 \<or> (100::int) < 0) \<and>
   fst (migrate (healthy [users3]) ''to_local'' ''db'' 0 30 fresh) = 1 \<and>
   conn_attempts (snd (migrate (healthy [users3]) ''to_local'' ''db'' 0 30 fresh)) = 0 \<and>
   target (snd (migrate (healthy [users3]) ''to_local'' ''db'' 0 30 fresh)) = []"
  using percentage_validated_first [of 0 "healthy [users3]" "''to_local''" "''db''" 30 fresh]
  by (simp add: fresh_def)





section \<open>The unordered insert\<close>

lemma get_coll_put_coll [simp]: "get_coll c (put_coll c ds al) = ds"
  by (induction al) (auto simp: get_coll_def)

lemma insert_unordered_length:
  "insert_unordered v coll ds = (coll', errs) \<Longrightarrow>
     length coll' + length errs = length coll + length ds"
  by (induction ds arbitrary: coll coll' errs)
     (auto split: if_splits option.splits prod.splits)

lemma insert_unordered_distinct:
  "distinct (map doc_id ds) \<Longrightarrow>
     fst (insert_unordered v coll ds) =
       coll @ filter (\<lambda>d. doc_id d \<notin> set (map doc_id coll) \<and> v d = None) ds"
proof (induction ds arbitrary: coll)
  case Nil
  then show ?case by simp
next
  case (Cons d ds)
  then have "doc_id d \<notin> doc_id ` set ds" by simp
  then have fresh_ids: "\<forall>d' \<in> set ds. doc_id d' \<noteq> doc_id d"
    by (metis imageI)
  show ?case
  proof (cases "doc_id d \<in> set (map doc_id coll) \<or> v d \<noteq> None")
    case True
    then have "fst (insert_unordered v coll (d # ds)) = fst (insert_unordered v coll ds)"
      by (auto simp: case_prod_beta split: option.splits)
    moreover have "fst (insert_unordered v coll ds) =
        coll @ filter (\<lambda>d. doc_id d \<notin> set (map doc_id coll) \<and> v d = None) ds"
      using Cons by simp
    ultimately show ?thesis using True by auto
  next
    case False
    have "filter (\<lambda>d'. doc_id d' \<notin> set (map doc_id (coll @ [d])) \<and> v d' = None) ds =
          filter (\<lambda>d'. doc_id d' \<notin> set (map doc_id coll) \<and> v d' = None) ds"
      using fresh_ids by (intro filter_cong) auto
    with False Cons show ?thesis by simp
  qed
qed

lemma insert_many_bulk:
  assumes "insert_many E c docs s = (BulkWriteError errs, s')"
  shows "errs \<noteq> [] \<and>
     insert_unordered (validate E c) (get_coll c (target s)) docs = (get_coll c (target s'), errs)"
proof -
  define s1 where "s1 = tick E (s\<lparr>writes := writes s @ [(c, docs, stop s)]\<rparr>)"
  have t: "target s1 = target s" by (simp add: s1_def)
  have st: "store E c docs s2 = (BulkWriteError errs, s') \<Longrightarrow> target s2 = target s \<Longrightarrow>
     errs \<noteq> [] \<and>
     insert_unordered (validate E c) (get_coll c (target s)) docs = (get_coll c (target s'), errs)"
    for s2
    by (auto simp: store_def Let_def split: prod.splits if_splits)
  show ?thesis
    using assms t st [of s1] st [of "s1\<lparr>write_faults := tl (write_faults s1)\<rparr>"]
    by (auto simp: insert_many_def Let_def s1_def [symmetric] split: list.splits fault.splits)
qed


section \<open>Claims on the write outcome\<close>

lemma write_batch_bulk:
  "insert_many E c docs s = (BulkWriteError errs, s') \<Longrightarrow>
     write_batch E c docs s =
       (True, logger_warning (''BulkWriteError in '' @ c) (log_write_errors c errs s'))"
  by (simp add: write_batch_def)

text \<open>
  C4 (duplicate keys in a batch): when \<open>insert_many\<close> raises a BulkWriteError, the
  documents of the batch that the target accepts are stored (with distinct ids in the
  batch: exactly those whose id is new and that pass validation, in batch order), as many
  documents are stored as the batch has without write errors, the write does not break
  the loop, and the iteration goes on with \<open>migrated_count\<close> advanced by the whole batch
  length, unless the progress display raises. At least one document was rejected, so the
  count advances by more than was written.
\<close>

theorem duplicates_do_not_stop_the_batch:
  assumes "insert_many E c docs s = (BulkWriteError errs, s')"
  shows "fst (write_batch E c docs s) \<and>
     errs \<noteq> [] \<and>
     get_coll c (target s') = fst (insert_unordered (validate E c) (get_coll c (target s)) docs) \<and>
     length (get_coll c (target s')) + length errs = length (get_coll c (target s)) + length docs \<and>
     (distinct (map doc_id docs) \<longrightarrow>
        get_coll c (target s') =
          get_coll c (target s) @
          filter (\<lambda>d. doc_id d \<notin> set (map doc_id (get_coll c (target s))) \<and>
                       validate E c d = None) docs) \<and>
     (fetch_batch E c (nat b) mc n cur [] s0 = (docs, cur', s) \<and> docs \<noteq> [] \<and>
      fst (progress_update (length docs) (snd (write_batch E c docs s))) = None \<longrightarrow>
        (\<exists>s3. batch_step E c b n mc cur s0 = Continue (mc + int (length docs)) cur' s3))"
proof -
  note B = insert_many_bulk [OF assms]
  note W = write_batch_bulk [OF assms]
  have 1: "fst (write_batch E c docs s)" by (simp add: W)
  have 2: "get_coll c (target s') =
      fst (insert_unordered (validate E c) (get_coll c (target s)) docs)"
    using B by simp
  have 3: "length (get_coll c (target s')) + length errs =
      length (get_coll c (target s)) + length docs"
    using B insert_unordered_length by blast
  have 4: "distinct (map doc_id docs) \<longrightarrow>
        get_coll c (target s') =
          get_coll c (target s) @
          filter (\<lambda>d. doc_id d \<notin> set (map doc_id (get_coll c (target s))) \<and>
                       validate E c d = None) docs"
    using 2 insert_unordered_distinct [of docs "validate E c" "get_coll c (target s)"] by simp
  have 5: "\<exists>s3. batch_step E c b n mc cur s0 = Continue (mc + int (length docs)) cur' s3"
    if f: "fetch_batch E c (nat b) mc n cur [] s0 = (docs, cur', s)" and d: "docs \<noteq> []"
      and u: "fst (progress_update (length docs) (snd (write_batch E c docs s))) = None"
  proof -
    obtain e s3 where
      pu: "progress_update (length docs)
             (logger_warning (''BulkWriteError in '' @ c) (log_write_errors c errs s')) = (e, s3)"
      by (cases "progress_update (length docs)
             (logger_warning (''BulkWriteError in '' @ c) (log_write_errors c errs s'))") auto
    with u W have "e = None" by simp
    with batch_step_cases [OF f W pu] d show ?thesis by simp
  qed
  show ?thesis using 1 2 3 4 5 B by blast
qed

theorem duplicates_do_not_stop_the_batch_witness:
  "insert_many two_docs ''a'' (docs_upto 2) after_fetch =
     (BulkWriteError [11000], snd (insert_many two_docs ''a'' (docs_upto 2) after_fetch)) \<and>
   fst (write_batch two_docs ''a'' (docs_upto 2) after_fetch) \<and>
   length (get_coll ''a'' (target (snd (insert_many two_docs ''a'' (docs_upto 2) after_fetch)))) +
     length [11000::nat] = length (get_coll ''a'' (target after_fetch)) + length (docs_upto 2) \<and>
   distinct (map doc_id (docs_upto 2)) \<and>
   get_coll ''a'' (target (snd (insert_many two_docs ''a'' (docs_upto 2) after_fetch))) =
     [Doc 0 ''old'', Doc 1 []] \<and>
   fetch_batch two_docs ''a'' (nat 2) 0 2 (map Yield (docs_upto 2)) [] holds_doc0 =
     (docs_upto 2, [], after_fetch) \<and>
   docs_upto 2 \<noteq> [] \<and>
   fst (progress_update (length (docs_upto 2))
          (snd (write_batch two_docs ''a'' (docs_upto 2) after_fetch))) = None \<and>
   (\<exists>s3. batch_step two_docs ''a'' 2 2 0 (map Yield (docs_upto 2)) holds_doc0 =
           Continue 2 [] s3) \<and>
   completed (do_migrate two_docs ''db'' 100 2 holds_doc0) = [(''a'', 2, 2)] \<and>
   get_coll ''a'' (target (do_migrate two_docs ''db'' 100 2 holds_doc0)) =
     [Doc 0 ''old'', Doc 1 []]"
proof -
  have im: "insert_many two_docs ''a'' (docs_upto 2) after_fetch =
     (BulkWriteError [11000], snd (insert_many two_docs ''a'' (docs_upto 2) after_fetch))"
    by code_simp
  have fb: "fetch_batch two_docs ''a'' (nat 2) 0 2 (map Yield (docs_upto 2)) [] holds_doc0 =
     (docs_upto 2, [], after_fetch)"
    by (simp add: numeral_2_eq_2 docs_upto_def two_docs_def healthy_def holds_doc0_def
          fresh_def after_fetch_def tick_def Let_def)
  have ne: "docs_upto 2 \<noteq> []" by code_simp
  have len2: "int (length (docs_upto 2)) = 2" by (simp add: docs_upto_def)
  have pu: "fst (progress_update (length (docs_upto 2))
          (snd (write_batch two_docs ''a'' (docs_upto 2) after_fetch))) = None"
    by code_simp
  have ground: "distinct (map doc_id (docs_upto 2)) \<and>
     get_coll ''a'' (target (snd (insert_many two_docs ''a'' (docs_upto 2) after_fetch))) =
       [Doc 0 ''old'', Doc 1 []] \<and>
     completed (do_migrate two_docs ''db'' 100 2 holds_doc0) = [(''a'', 2, 2)] \<and>
     get_coll ''a'' (target (do_migrate two_docs ''db'' 100 2 holds_doc0)) =
       [Doc 0 ''old'', Doc 1 []]"
    by code_simp
  note T = duplicates_do_not_stop_the_batch [OF im, where b = 2 and mc = 0 and n = 2
      and cur = "map Yield (docs_upto 2)" and ?s0.0 = holds_doc0 and cur' = "[]"]
  from T have wb: "fst (write_batch two_docs ''a'' (docs_upto 2) after_fetch)"
    by (rule conjunct1)
  from T have len: "length (get_coll ''a''
        (target (snd (insert_many two_docs ''a'' (docs_upto 2) after_fetch)))) +
     length [11000::nat] = length (get_coll ''a'' (target after_fetch)) + length (docs_upto 2)"
    by blast
  from T fb ne pu
  have "\<exists>s3. batch_step two_docs ''a'' 2 2 0 (map Yield (docs_upto 2)) holds_doc0 =
           Continue (0 + int (length (docs_upto 2))) [] s3"
    by blast
  then have st: "\<exists>s3. batch_step two_docs ''a'' 2 2 0 (map Yield (docs_upto 2)) holds_doc0 =
           Continue 2 [] s3"
    by (simp add: len2)
  from im wb len ground fb ne pu st show ?thesis by blast
qed

text \<open>
  C2 (a write error other than a duplicate key stops the collection): a document that
  the target rejects with code 121 makes \<open>insert_many\<close> raise a BulkWriteError; the error
  is logged, and the next batch of the same collection is still pulled and written.
\<close>

theorem bulk_write_error_does_not_stop:
  "map fst (writes (do_migrate rejecting ''db'' 100 1 fresh)) = [''a'', ''a''] \<and>
   (Error, ''Write error in a'') \<in> set (logs (do_migrate rejecting ''db'' 100 1 fresh)) \<and>
   target (do_migrate rejecting ''db'' 100 1 fresh) = [(''a'', [Doc 1 []])] \<and>
   completed (do_migrate rejecting ''db'' 100 1 fresh) = [(''a'', 2, 2)]"
  by code_simp

lemma batch_step_write_fault:
  assumes wf: "write_faults s = f # fs" and f: "f \<noteq> NoFault"
  shows "\<exists>s'. batch_step E c b n mc cur s = Exit None mc s' \<and>
     (writes s' = writes s \<or>
      (\<exists>docs late. writes s' = writes s @ [(c, docs, late)] \<and> fst (last (logs s')) = Error))"
proof -
  obtain docs cur' s1 where fb: "fetch_batch E c (nat b) mc n cur [] s = (docs, cur', s1)"
    by (cases "fetch_batch E c (nat b) mc n cur [] s") auto
  note F = fetch_batch_frame [OF fb]
  obtain ok s2 where w: "write_batch E c docs s1 = (ok, s2)"
    by (cases "write_batch E c docs s1") auto
  obtain e s3 where u: "progress_update (length docs) s2 = (e, s3)"
    by (cases "progress_update (length docs) s2") auto
  have "\<not> ok \<and> writes s2 = writes s @ [(c, docs, stop s1)] \<and> fst (last (logs s2)) = Error"
    using w F wf f
    by (cases f) (auto simp: write_batch_def insert_many_def Let_def log_defs)
  with batch_step_cases [OF fb w u] F show ?thesis by auto
qed

lemma process_collection_nonempty:
  assumes "est_count (snd nc) = Some t" "0 < t"
  shows "fst (process_collection E p b nc s) = None"
proof (cases "access_fails (snd nc) \<or> find_fails (snd nc) \<or> b < 0")
  case True
  with assms show ?thesis
    by (auto simp: process_collection_def Let_def split: prod.splits)
next
  case False
  define s5 where "s5 = (let s4 = tick E (add_task (fst nc) (num_to_migrate t p)
                     (log_to_file Info (fst nc @ '': migrating'')
                        (tick E (tick E (s\<lparr>started := started s @ [(fst nc, stop s)]\<rparr>)))))
                 in s4\<lparr>cursors_opened := Suc (cursors_opened s4)\<rparr>)"
  obtain e6 mc s6 where
    loop: "batch_loop E (fst nc) b (num_to_migrate t p) 0 (fetches (snd nc)) s5 = (e6, mc, s6)"
    by (cases "batch_loop E (fst nc) b (num_to_migrate t p) 0 (fetches (snd nc)) s5") auto
  from False assms have c: "\<not> access_fails (snd nc)" "est_count (snd nc) = Some t" "0 < t"
    "\<not> find_fails (snd nc)" "0 \<le> b" by auto
  show ?thesis
    unfolding process_collection_copy [OF c s5_def loop] by (simp add: Let_def)
qed

text \<open>
  C2, amended: when \<open>insert_many\<close> raises anything but a BulkWriteError (a driver error
  or an unexpected exception), the error is logged and the batch loop ends there, with
  the count as it was and no further batch attempted; a BulkWriteError, whatever its
  codes, does not break the loop. A collection that has documents is always left
  without an exception and with the overall progress advanced by one; the run goes on
  with the next collection, and a collection loop that ends without interrupt and
  without exception has advanced the overall progress by the number of collections.
\<close>

theorem write_error_stops_collection_only:
  "(write_faults s = f # fs \<and> f \<noteq> NoFault \<longrightarrow>
      (\<exists>s'. batch_loop E c b n mc cur s = (None, mc, s') \<and>
            (writes s' = writes s \<or>
             (\<exists>docs late. writes s' = writes s @ [(c, docs, late)] \<and>
                          fst (last (logs s')) = Error)))) \<and>
   (insert_many E c docs s = (BulkWriteError errs, s1) \<longrightarrow> fst (write_batch E c docs s)) \<and>
   (est_count (snd nc) = Some t \<and> 0 < t \<longrightarrow>
      fst (process_collection E p b nc s) = None \<and>
      overall (snd (process_collection E p b nc s)) = Suc (overall s)) \<and>
   (\<not> stop s \<and> process_collection E p b nc s = (None, s2) \<longrightarrow>
      collections_loop E p b (nc # ncs) s = collections_loop E p b ncs s2) \<and>
   (collections_loop E p b ncs s = (None, s3) \<and> \<not> stop s3 \<longrightarrow>
      overall s3 = overall s + length ncs)"
proof -
  have 1: "\<exists>s'. batch_loop E c b n mc cur s = (None, mc, s') \<and>
            (writes s' = writes s \<or>
             (\<exists>docs late. writes s' = writes s @ [(c, docs, late)] \<and>
                          fst (last (logs s')) = Error))"
    if wf: "write_faults s = f # fs" "f \<noteq> NoFault"
  proof (cases "mc < n \<and> \<not> stop s")
    case True
    from batch_step_write_fault [OF wf, of E c b n mc cur] obtain s' where
      "batch_step E c b n mc cur s = Exit None mc s'"
      "writes s' = writes s \<or>
        (\<exists>docs late. writes s' = writes s @ [(c, docs, late)] \<and> fst (last (logs s')) = Error)"
      by blast
    with True show ?thesis by (simp add: batch_loop.simps)
  next
    case False
    then show ?thesis by (auto simp: batch_loop.simps)
  qed
  have 2: "fst (write_batch E c docs s)" if "insert_many E c docs s = (BulkWriteError errs, s1)"
    using that by (simp add: write_batch_def)
  have 3: "fst (process_collection E p b nc s) = None \<and>
      overall (snd (process_collection E p b nc s)) = Suc (overall s)"
    if "est_count (snd nc) = Some t" "0 < t"
  proof -
    have n: "fst (process_collection E p b nc s) = None"
      using that by (rule process_collection_nonempty)
    obtain e s' where r: "process_collection E p b nc s = (e, s')"
      by (cases "process_collection E p b nc s") auto
    from process_collection_frame [OF r, of 0] n r show ?thesis by simp
  qed
  have 4: "collections_loop E p b (nc # ncs) s = collections_loop E p b ncs s2"
    if "\<not> stop s" "process_collection E p b nc s = (None, s2)"
    using that by simp
  have 5: "overall s3 = overall s + length ncs"
    if "collections_loop E p b ncs s = (None, s3)" "\<not> stop s3"
    using collections_loop_frame [OF that(1), of 0] that(2) by simp
  show ?thesis using 1 2 3 4 5 by blast
qed

theorem write_error_stops_collection_only_witness:
  "write_faults net_fault = [MongoFault] \<and> MongoFault \<noteq> NoFault \<and>
   (\<exists>s'. batch_loop two_docs ''a'' 1 2 0 (map Yield (docs_upto 2)) net_fault = (None, 0, s')) \<and>
   insert_many rejecting ''a'' (docs_upto 2) fresh =
     (BulkWriteError [121], snd (insert_many rejecting ''a'' (docs_upto 2) fresh)) \<and>
   fst (write_batch rejecting ''a'' (docs_upto 2) fresh) \<and>
   est_count (snd coll_a) = Some 2 \<and> (0::nat) < 2 \<and>
   fst (process_collection two_docs 100 1 coll_a net_fault) = None \<and>
   overall (snd (process_collection two_docs 100 1 coll_a net_fault)) = 1 \<and>
   \<not> stop net_fault \<and>
   collections_loop two_docs 100 1 [coll_a, coll_b] net_fault =
     collections_loop two_docs 100 1 [coll_b]
       (snd (process_collection two_docs 100 1 coll_a net_fault)) \<and>
   fst (collections_loop two_docs 100 1 [coll_a, coll_b] net_fault) = None \<and>
   \<not> stop (snd (collections_loop two_docs 100 1 [coll_a, coll_b] net_fault)) \<and>
   overall (snd (collections_loop two_docs 100 1 [coll_a, coll_b] net_fault)) = 2 \<and>
   map fst (writes (snd (collections_loop two_docs 100 1 [coll_a, coll_b] net_fault))) =
     [''a'', ''b''] \<and>
   map fst (writes (do_migrate two_docs ''db'' 100 1 net_fault)) = [''a''] \<and>
   completed (do_migrate two_docs ''db'' 100 1 net_fault) = [(''a'', 0, 2)]"
proof -
  have run: "map fst (writes (do_migrate two_docs ''db'' 100 1 net_fault)) = [''a''] \<and>
     completed (do_migrate two_docs ''db'' 100 1 net_fault) = [(''a'', 0, 2)]"
    by code_simp
  have wf: "write_faults net_fault = [MongoFault]"
    by (simp add: net_fault_def fresh_def)
  have ns: "\<not> stop net_fault" "overall net_fault = 0"
    by (simp_all add: net_fault_def fresh_def)
  have est: "est_count (snd coll_a) = Some 2"
    by (simp add: coll_a_def coll_of_def)
  have im: "insert_many rejecting ''a'' (docs_upto 2) fresh =
     (BulkWriteError [121], snd (insert_many rejecting ''a'' (docs_upto 2) fresh))"
    by code_simp
  have ground: "fst (collections_loop two_docs 100 1 [coll_a, coll_b] net_fault) = None \<and>
     \<not> stop (snd (collections_loop two_docs 100 1 [coll_a, coll_b] net_fault)) \<and>
     map fst (writes (snd (collections_loop two_docs 100 1 [coll_a, coll_b] net_fault))) =
       [''a'', ''b'']"
    by code_simp
  note T1 = write_error_stops_collection_only
    [where s = net_fault and f = MongoFault and fs = "[]" and E = two_docs and c = "''a''"
       and b = 1 and n = 2 and mc = 0 and cur = "map Yield (docs_upto 2)"
       and nc = coll_a and t = 2 and p = 100
       and docs = "[]" and errs = "[]" and ncs = "[coll_b]" and ?s1.0 = net_fault
       and ?s2.0 = "snd (process_collection two_docs 100 1 coll_a net_fault)"
       and ?s3.0 = net_fault]
  from T1 [THEN conjunct1] wf
  have A: "\<exists>s'. batch_loop two_docs ''a'' 1 2 0 (map Yield (docs_upto 2)) net_fault = (None, 0, s')"
    by blast
  from T1 [THEN conjunct2, THEN conjunct2, THEN conjunct1] est
  have B: "fst (process_collection two_docs 100 1 coll_a net_fault) = None"
    "overall (snd (process_collection two_docs 100 1 coll_a net_fault)) = Suc (overall net_fault)"
    by simp_all
  from B(1) have pc: "process_collection two_docs 100 1 coll_a net_fault =
      (None, snd (process_collection two_docs 100 1 coll_a net_fault))"
    by (metis prod.collapse)
  from T1 [THEN conjunct2, THEN conjunct2, THEN conjunct2, THEN conjunct1] ns(1) pc
  have C: "collections_loop two_docs 100 1 [coll_a, coll_b] net_fault =
     collections_loop two_docs 100 1 [coll_b]
       (snd (process_collection two_docs 100 1 coll_a net_fault))"
    by blast
  note T2 = write_error_stops_collection_only
    [where s = fresh and E = rejecting and c = "''a''" and docs = "docs_upto 2"
       and errs = "[121]" and ?s1.0 = "snd (insert_many rejecting ''a'' (docs_upto 2) fresh)"
       and f = NoFault and fs = "[]" and b = 1 and n = 2 and mc = 0 and cur = "[]"
       and nc = coll_a and t = 2 and p = 100 and ncs = "[]" and ?s2.0 = fresh and ?s3.0 = fresh]
  from T2 [THEN conjunct2, THEN conjunct1] im
  have D: "fst (write_batch rejecting ''a'' (docs_upto 2) fresh)"
    by blast
  note T3 = write_error_stops_collection_only
    [where s = net_fault and E = two_docs and p = 100 and b = 1 and ncs = "[coll_a, coll_b]"
       and ?s3.0 = "snd (collections_loop two_docs 100 1 [coll_a, coll_b] net_fault)"
       and f = NoFault and fs = "[]" and c = "''a''" and n = 2 and mc = 0 and cur = "[]"
       and docs = "[]" and errs = "[]" and ?s1.0 = fresh and nc = coll_a and t = 2
       and ?s2.0 = fresh]
  from ground have cl: "collections_loop two_docs 100 1 [coll_a, coll_b] net_fault =
      (None, snd (collections_loop two_docs 100 1 [coll_a, coll_b] net_fault))"
    by (metis prod.collapse)
  from T3 [THEN conjunct2, THEN conjunct2, THEN conjunct2, THEN conjunct2] cl ground
  have E: "overall (snd (collections_loop two_docs 100 1 [coll_a, coll_b] net_fault)) =
      overall net_fault + length [coll_a, coll_b]"
    by blast
  from B(2) ns(2) have B2: "overall (snd (process_collection two_docs 100 1 coll_a net_fault)) = 1"
    by simp
  from E ns(2) have E2: "overall (snd (collections_loop two_docs 100 1 [coll_a, coll_b] net_fault)) = 2"
    by simp
  have "MongoFault \<noteq> NoFault" "(0::nat) < 2" by simp_all
  with wf A im D est B(1) B2 ns(1) C ground E2 run show ?thesis by blast
qed

text \<open>
  C1 (the batches of a collection add up to the planned count): the cap inside the
  batch is tested against \<open>migrated_count\<close>, which only changes after the batch is
  written, so every batch is pulled in full. With 100 documents, 50 percent and batches
  of 30, the plan is 50 documents, two batches of 30 are written, and the target holds
  60 documents.
\<close>

theorem whole_batches_overshoot_the_plan:
  "num_to_migrate 100 50 = 50 \<and>
   map (\<lambda>w. length (fst (snd w))) (writes (do_migrate end_to_end ''db'' 50 30 fresh)) = [30, 30] \<and>
   map (\<lambda>cd. (fst cd, length (snd cd))) (target (do_migrate end_to_end ''db'' 50 30 fresh)) =
     [(''users'', 60), (''empty'', 0)] \<and>
   completed (do_migrate end_to_end ''db'' 50 30 fresh) = [(''users'', 60, 100)] \<and>
   overall (do_migrate end_to_end ''db'' 50 30 fresh) = 2"
  by code_simp

end
